theory Spec2Isabelle
  imports Main "HOL-Library.AList"
begin

section \<open>The environment registry of gym/envs/registration.py\<close>

text \<open>
  The development follows the source file top down: the identifier parser
  \<^verbatim>\<open>parse_env_id\<close>, the record \<^verbatim>\<open>EnvSpec\<close>, the tree \<^verbatim>\<open>EnvSpecTree\<close> and the
  facade \<^verbatim>\<open>EnvRegistry\<close>. Python exceptions are values of the type \<open>error\<close>, a
  function that may raise returns \<open>error + 'a\<close>, and a method that mutates its object
  returns the object after the call.
\<close>

subsection \<open>Exceptions\<close>

text \<open>
  \<open>MalformedId s\<close> is the \<^verbatim>\<open>error.Error\<close> raised by \<^verbatim>\<open>parse_env_id\<close> on the string \<open>s\<close>
  and \<open>NoEntryPoint s\<close> the \<^verbatim>\<open>error.Error\<close> raised by \<^verbatim>\<open>EnvSpec.make\<close> for the spec
  with id \<open>s\<close>; their messages are fixed texts around \<open>s\<close>. \<open>VersionNotFound\<close> and
  \<open>DeprecatedEnv\<close> carry their message. The messages of \<open>NamespaceNotFound\<close> and
  \<open>NameNotFound\<close> depend on \<^verbatim>\<open>difflib\<close> and on the packages installed
  (\<^verbatim>\<open>importlib.util.find_spec\<close>) and are left out. \<open>TypeError\<close> is Python's own
  exception for an ordering comparison with \<^verbatim>\<open>None\<close>, \<open>KeyError\<close> the one of a
  dictionary asked for a key it does not have, and \<open>ValueError\<close> the one of a
  conversion between an integer and a string of more digits than the interpreter
  allows.
\<close>

datatype error =
    MalformedId string
  | NoEntryPoint string
  | NamespaceNotFound
  | NameNotFound
  | VersionNotFound string
  | DeprecatedEnv string
  | TypeError
  | KeyError
  | ValueError

text \<open>
  Modelled from the spec: the exception classes of \<^verbatim>\<open>gym.error\<close> are not part of the
  source at hand, so which of them \<^verbatim>\<open>except error.UnregisteredEnv\<close> catches is taken
  from the spec: the failures of a lookup (unknown namespace, unknown name, unknown
  version) are the ones swallowed; a deprecated version, a malformed id and a
  \<^verbatim>\<open>TypeError\<close> are not.
\<close>

fun is_UnregisteredEnv :: "error \<Rightarrow> bool" where
  "is_UnregisteredEnv NamespaceNotFound = True"
| "is_UnregisteredEnv NameNotFound = True"
| "is_UnregisteredEnv (VersionNotFound m) = True"
| "is_UnregisteredEnv e = False"

subsection \<open>Characters and decimal numbers\<close>

text \<open>
  A string is a Python \<^verbatim>\<open>str\<close> of code points below 256, and a character is its
  code point; code points from 256 on are outside the type. The pattern of
  \<^verbatim>\<open>parse_env_id\<close> is a \<^verbatim>\<open>str\<close> pattern compiled without \<^verbatim>\<open>re.ASCII\<close>, so its classes
  are those of Unicode. Below 256, \<^verbatim>\<open>\d\<close> (a decimal digit) is \<^verbatim>\<open>[0-9]\<close>, and \<^verbatim>\<open>\w\<close>
  (alphanumeric or the underscore) is \<^verbatim>\<open>[A-Za-z0-9_]\<close> with the letters and numeric
  characters of the upper half: the code points 170, 178, 179, 181, 185, 186,
  188 to 190, 192 to 214, 216 to 246 and 248 to 255.
\<close>

definition is_digit :: "char \<Rightarrow> bool" where
  "is_digit c = (48 \<le> (of_char c :: nat) \<and> (of_char c :: nat) \<le> 57)"

definition is_word :: "char \<Rightarrow> bool" where
  "is_word c =
     (let n = (of_char c :: nat)
      in (65 \<le> n \<and> n \<le> 90) \<or> (97 \<le> n \<and> n \<le> 122) \<or> (48 \<le> n \<and> n \<le> 57) \<or> n = 95
         \<or> n = 170 \<or> n = 178 \<or> n = 179 \<or> n = 181 \<or> n = 185 \<or> n = 186
         \<or> (188 \<le> n \<and> n \<le> 190) \<or> (192 \<le> n \<and> n \<le> 214)
         \<or> (216 \<le> n \<and> n \<le> 246) \<or> (248 \<le> n \<and> n \<le> 255))"

text \<open>The classes \<^verbatim>\<open>[\w:-]\<close> of a namespace and \<^verbatim>\<open>[\w:.-]\<close> of a name.\<close>

definition ns_char :: "char \<Rightarrow> bool" where
  "ns_char c = (is_word c \<or> c = CHR '':'' \<or> c = CHR ''-'')"

definition name_char :: "char \<Rightarrow> bool" where
  "name_char c = (is_word c \<or> c = CHR '':'' \<or> c = CHR ''.'' \<or> c = CHR ''-'')"

text \<open>The value of a string of digits and the decimal digits of an integer.\<close>

definition digit_val :: "char \<Rightarrow> int" where
  "digit_val c = int (of_char c) - 48"

definition int_of_digits :: "string \<Rightarrow> int" where
  "int_of_digits ds = foldl (\<lambda>a c. 10 * a + digit_val c) 0 ds"

definition digit_char :: "nat \<Rightarrow> char" where
  "digit_char d = char_of (48 + d)"

fun str_nat :: "nat \<Rightarrow> string" where
  "str_nat n = (if n < 10 then [digit_char n] else str_nat (n div 10) @ [digit_char (n mod 10)])"

definition str_int :: "int \<Rightarrow> string" where
  "str_int i = (if i < 0 then CHR ''-'' # str_nat (nat (- i)) else str_nat (nat i))"

text \<open>
  Python integers are unbounded, but an interpreter may limit the conversions
  between \<^verbatim>\<open>int\<close> and \<^verbatim>\<open>str\<close>: with the limit \<open>m\<close> of
  \<^verbatim>\<open>sys.get_int_max_str_digits()\<close>, which is 4300 where nothing sets it, a
  conversion of more than \<open>m\<close> digits raises \<^verbatim>\<open>ValueError\<close>. The limit 0 is no limit,
  as on an interpreter that has none; a conversion of up to 640 digits is never
  refused, and no limit between 1 and 639 can be set. The limit is a parameter
  \<open>m\<close> of every function that converts. \<open>py_int\<close> is \<^verbatim>\<open>int(s)\<close> on a string of
  digits, whose leading zeros count, and \<open>py_str\<close> is \<^verbatim>\<open>str(i)\<close>, as the f-strings
  of the source format an integer; the sign does not count.
\<close>

definition over_limit :: "nat \<Rightarrow> nat \<Rightarrow> bool" where
  "over_limit m n = (640 < n \<and> 0 < m \<and> m < n)"

definition py_int :: "nat \<Rightarrow> string \<Rightarrow> error + int" where
  "py_int m ds = (if over_limit m (length ds) then Inl ValueError else Inr (int_of_digits ds))"

definition py_str :: "nat \<Rightarrow> int \<Rightarrow> error + string" where
  "py_str m i =
     (if over_limit m (length (str_nat (nat \<bar>i\<bar>))) then Inl ValueError else Inr (str_int i))"

subsection \<open>The regular expression of \<^verbatim>\<open>parse_env_id\<close>\<close>

text \<open>
  The fragment of Python's \<^verbatim>\<open>re\<close> the pattern uses: a literal character, a greedy
  \<^verbatim>\<open>[...]+\<close>, a lazy \<^verbatim>\<open>[...]+?\<close>, sequence, a greedy optional group \<^verbatim>\<open>(?:...)?\<close>, a
  named group \<^verbatim>\<open>(?P<n>...)\<close> and the anchor \<^verbatim>\<open>$\<close>. The matcher backtracks as
  \<^verbatim>\<open>re\<close> does: it is given the rest of the match as a continuation and tries the
  alternatives in the order of their priority (the longest run first for a greedy
  repetition, the shortest first for a lazy one, the group before its absence for
  an optional one); the first alternative under which the continuation succeeds
  is the match.
\<close>

datatype rx =
    Lit char
  | Plus "char \<Rightarrow> bool"
  | PlusLazy "char \<Rightarrow> bool"
  | Seq rx rx
  | Opt rx
  | Group string rx
  | Eol

type_synonym groups = "string \<rightharpoonup> string"

fun greedy_plus :: "(char \<Rightarrow> bool) \<Rightarrow> (string \<Rightarrow> 'a option) \<Rightarrow> string \<Rightarrow> 'a option" where
  "greedy_plus p k [] = None"
| "greedy_plus p k (x # xs) =
     (if p x then (case greedy_plus p k xs of Some r \<Rightarrow> Some r | None \<Rightarrow> k xs) else None)"

fun lazy_plus :: "(char \<Rightarrow> bool) \<Rightarrow> (string \<Rightarrow> 'a option) \<Rightarrow> string \<Rightarrow> 'a option" where
  "lazy_plus p k [] = None"
| "lazy_plus p k (x # xs) =
     (if p x then (case k xs of Some r \<Rightarrow> Some r | None \<Rightarrow> lazy_plus p k xs) else None)"

primrec rx_match :: "rx \<Rightarrow> string \<Rightarrow> groups \<Rightarrow> (string \<Rightarrow> groups \<Rightarrow> groups option) \<Rightarrow> groups option" where
  "rx_match (Lit c) s g k = (case s of [] \<Rightarrow> None | x # xs \<Rightarrow> if x = c then k xs g else None)"
| "rx_match (Plus p) s g k = greedy_plus p (\<lambda>r. k r g) s"
| "rx_match (PlusLazy p) s g k = lazy_plus p (\<lambda>r. k r g) s"
| "rx_match (Seq a b) s g k = rx_match a s g (\<lambda>r g'. rx_match b r g' k)"
| "rx_match (Opt a) s g k = (case rx_match a s g k of Some r \<Rightarrow> Some r | None \<Rightarrow> k s g)"
| "rx_match (Group n a) s g k =
     rx_match a s g (\<lambda>r g'. k r (g'(n \<mapsto> take (length s - length r) s)))"
| "rx_match Eol s g k = (if s = [] \<or> s = [CHR 0x0A] then k s g else None)"

text \<open>\<^verbatim>\<open>pattern.fullmatch\<close>: the match has to end at the end of the string.\<close>

definition at_end :: "string \<Rightarrow> groups \<Rightarrow> groups option" where
  "at_end r g = (if r = [] then Some g else None)"

definition fullmatch :: "rx \<Rightarrow> string \<Rightarrow> groups option" where
  "fullmatch r s = rx_match r s Map.empty at_end"

text \<open>
  \<^verbatim>\<open>^(?:(?P<namespace>[\w:-]+)\/)?(?:(?P<name>[\w:.-]+?))(?:-v(?P<version>\d+))?$\<close>.
  The anchor \<^verbatim>\<open>^\<close> is where the match starts and is left out.
\<close>

definition namespace_rx :: rx where
  "namespace_rx = Opt (Seq (Group ''namespace'' (Plus ns_char)) (Lit (CHR ''/'')))"

definition name_rx :: rx where
  "name_rx = Group ''name'' (PlusLazy name_char)"

definition version_rx :: rx where
  "version_rx =
     Opt (Seq (Lit (CHR ''-'')) (Seq (Lit (CHR ''v'')) (Group ''version'' (Plus is_digit))))"

definition pattern :: rx where
  "pattern = Seq namespace_rx (Seq name_rx (Seq version_rx Eol))"

text \<open>
  For the proofs: a string \<^verbatim>\<open>-v\<close> and digits, as the optional last group matches
  it, and a name none of whose proper suffixes, put before the rest \<open>suf\<close> of the
  string, is such a string (the lazy \<^verbatim>\<open>+?\<close> would have stopped earlier).
\<close>

fun is_version_suffix :: "string \<Rightarrow> bool" where
  "is_version_suffix (c1 # c2 # ds) =
     (c1 = CHR ''-'' \<and> c2 = CHR ''v'' \<and> ds \<noteq> [] \<and> list_all is_digit ds)"
| "is_version_suffix s = False"

definition minimal_name :: "string \<Rightarrow> string \<Rightarrow> bool" where
  "minimal_name nm suf =
     (\<forall>a c. nm = a @ c \<and> a \<noteq> [] \<and> c \<noteq> [] \<longrightarrow> \<not> is_version_suffix (c @ suf))"

text \<open>For the proofs: what the optional last group and \<^verbatim>\<open>$\<close> make of the rest \<open>s\<close>.\<close>

definition version_groups :: "string \<Rightarrow> groups \<Rightarrow> groups option" where
  "version_groups s g =
     (if s = [] then Some g
      else if is_version_suffix s then Some (g(''version'' \<mapsto> drop 2 s))
      else None)"

text \<open>
  \<^verbatim>\<open>parse_env_id\<close>. The group \<^verbatim>\<open>name\<close> is not optional, so it is set in every match
  (lemma \<open>fullmatch_pattern_name\<close> below) and the last branch is never taken.
\<close>

definition parse_env_id ::
  "nat \<Rightarrow> string \<Rightarrow> error + (string option \<times> string \<times> int option)" where
  "parse_env_id m s =
     (case fullmatch pattern s of
        None \<Rightarrow> Inl (MalformedId s)
      | Some g \<Rightarrow>
          (case g ''name'' of
             Some n \<Rightarrow>
               (case g ''version'' of
                  None \<Rightarrow> Inr (g ''namespace'', n, None)
                | Some ds \<Rightarrow>
                    (case py_int m ds of
                       Inl e \<Rightarrow> Inl e
                     | Inr i \<Rightarrow> Inr (g ''namespace'', n, Some i)))
           | None \<Rightarrow> Inl (MalformedId s)))"

subsection \<open>\<^verbatim>\<open>EnvSpec\<close>\<close>

text \<open>
  The dataclass, with the type of the entry point and of the \<^verbatim>\<open>kwargs\<close> field left
  open: \<^verbatim>\<open>kwargs\<close> is a dictionary value where only the registry is looked at, and
  a reference into a store of dictionaries where \<^verbatim>\<open>make\<close> is.
\<close>

record ('ep, 'kw) EnvSpec =
  entry_point :: "'ep option"
  reward_threshold :: "int option"
  nondeterministic :: bool
  max_episode_steps :: "int option"
  order_enforce :: "bool option"
  kwargs :: 'kw
  namespace :: "string option"
  name :: string
  version :: "int option"

text \<open>The property \<^verbatim>\<open>id\<close>; the f-string of the version is the one conversion in it.\<close>

definition env_id :: "nat \<Rightarrow> ('ep, 'kw) EnvSpec \<Rightarrow> error + string" where
  "env_id m spec =
     (case version spec of
        None \<Rightarrow> Inr ((case namespace spec of None \<Rightarrow> [] | Some n \<Rightarrow> n @ ''/'') @ name spec)
      | Some v \<Rightarrow>
          (case py_str m v of
             Inl e \<Rightarrow> Inl e
           | Inr sv \<Rightarrow>
               Inr ((case namespace spec of None \<Rightarrow> [] | Some n \<Rightarrow> n @ ''/'')
                    @ name spec @ ''-v'' @ sv)))"

subsection \<open>Dictionaries\<close>

text \<open>
  A Python dictionary keeps its keys in the order of their insertion, and the
  tree is read in that order, so a dictionary is an association list.
  \<^const>\<open>map_of\<close> looks a key up, \<^const>\<open>AList.update\<close> is the assignment \<^verbatim>\<open>d[k] = v\<close> (in
  place for a key that is there, at the end for a new one) and \<^const>\<open>AList.delete\<close>
  is \<^verbatim>\<open>d.pop(k)\<close> for a key that is there.
\<close>

definition has_key :: "'k \<Rightarrow> ('k \<times> 'v) list \<Rightarrow> bool" where
  "has_key k d = (map_of d k \<noteq> None)"

subsection \<open>\<^verbatim>\<open>EnvSpecTree\<close>\<close>

type_synonym ('ep, 'kw) version_dict = "(int option \<times> ('ep, 'kw) EnvSpec) list"
type_synonym ('ep, 'kw) name_dict = "(string \<times> ('ep, 'kw) version_dict) list"

text \<open>The fields \<^verbatim>\<open>tree\<close> and \<^verbatim>\<open>_length\<close> (a name cannot begin with an underscore here).\<close>

record ('ep, 'kw) EnvSpecTree =
  tree :: "(string option \<times> ('ep, 'kw) name_dict) list"
  x_length :: int

text \<open>\<^verbatim>\<open>__init__\<close>.\<close>

definition EnvSpecTree_init :: "('ep, 'kw) EnvSpecTree" where
  "EnvSpecTree_init = \<lparr>tree = [], x_length = 0\<rparr>"

text \<open>
  The reads \<^verbatim>\<open>self.tree[namespace]\<close> and \<^verbatim>\<open>self.tree[namespace][name]\<close>. The tree is a
  \<^verbatim>\<open>defaultdict\<close>, which answers a missing key with a new empty dictionary; only
  \<^verbatim>\<open>__setitem__\<close> reads a level before it is known to be there, and it stores what
  it read.
\<close>

definition tree_ns :: "('ep, 'kw) EnvSpecTree \<Rightarrow> string option \<Rightarrow> ('ep, 'kw) name_dict" where
  "tree_ns t ns = (case map_of (tree t) ns of None \<Rightarrow> [] | Some d \<Rightarrow> d)"

definition tree_ns_name ::
  "('ep, 'kw) EnvSpecTree \<Rightarrow> string option \<Rightarrow> string \<Rightarrow> ('ep, 'kw) version_dict" where
  "tree_ns_name t ns nm = (case map_of (tree_ns t ns) nm of None \<Rightarrow> [] | Some d \<Rightarrow> d)"

text \<open>\<^verbatim>\<open>_assert_namespace_exists\<close> and \<^verbatim>\<open>_assert_name_exists\<close>.\<close>

definition assert_namespace_exists :: "('ep, 'kw) EnvSpecTree \<Rightarrow> string option \<Rightarrow> error + unit" where
  "assert_namespace_exists t ns = (if has_key ns (tree t) then Inr () else Inl NamespaceNotFound)"

definition assert_name_exists ::
  "('ep, 'kw) EnvSpecTree \<Rightarrow> string option \<Rightarrow> string \<Rightarrow> error + unit" where
  "assert_name_exists t ns nm =
     (case assert_namespace_exists t ns of
        Inl e \<Rightarrow> Inl e
      | Inr u \<Rightarrow> if has_key nm (tree_ns t ns) then Inr () else Inl NameNotFound)"

text \<open>
  \<^verbatim>\<open>versions\<close>. The table \<^verbatim>\<open>internal_env_relocation_map\<close> of
  \<^verbatim>\<open>gym/envs/__relocated__.py\<close> is a parameter: it maps a name to the namespace and
  the package it moved to.
\<close>

definition versions ::
  "(string \<rightharpoonup> string option \<times> string) \<Rightarrow> ('ep, 'kw) EnvSpecTree \<Rightarrow> string option \<Rightarrow> string
     \<Rightarrow> error + ('ep, 'kw) EnvSpec list" where
  "versions reloc t ns nm =
     (case assert_name_exists t ns nm of
        Inl e \<Rightarrow> Inl e
      | Inr u \<Rightarrow>
          (let vs = map snd (tree_ns_name t ns nm)
           in if ns = None \<and> reloc nm \<noteq> None then
                (case reloc nm of
                   None \<Rightarrow> Inr vs
                 | Some (relocated_namespace, relocated_package) \<Rightarrow>
                     (case assert_name_exists t relocated_namespace nm of
                        Inr u' \<Rightarrow> Inr (vs @ map snd (tree_ns_name t relocated_namespace nm))
                      | Inl e \<Rightarrow> if is_UnregisteredEnv e then Inr vs else Inl e))
              else Inr vs))"

text \<open>\<^verbatim>\<open>names\<close> and \<^verbatim>\<open>namespaces\<close> (\<^verbatim>\<open>filter(None, ...)\<close> drops \<^verbatim>\<open>None\<close> and the empty string).\<close>

definition names :: "('ep, 'kw) EnvSpecTree \<Rightarrow> string option \<Rightarrow> error + string list" where
  "names t ns =
     (case assert_namespace_exists t ns of
        Inl e \<Rightarrow> Inl e
      | Inr u \<Rightarrow> Inr (map fst (tree_ns t ns)))"

definition namespaces :: "('ep, 'kw) EnvSpecTree \<Rightarrow> string list" where
  "namespaces t = concat (map (\<lambda>k. case k of None \<Rightarrow> [] | Some n \<Rightarrow> if n = [] then [] else [n])
                               (map fst (tree t)))"

text \<open>
  Python orders two versions with \<^verbatim>\<open>>\<close> and \<^verbatim>\<open><\<close>, which raise \<^verbatim>\<open>TypeError\<close> when either
  side is \<^verbatim>\<open>None\<close>.
\<close>

fun py_gt :: "int option \<Rightarrow> int option \<Rightarrow> error + bool" where
  "py_gt (Some a) (Some b) = Inr (a > b)"
| "py_gt a b = Inl TypeError"

fun py_lt :: "int option \<Rightarrow> int option \<Rightarrow> error + bool" where
  "py_lt (Some a) (Some b) = Inr (a < b)"
| "py_lt a b = Inl TypeError"

text \<open>
  \<^verbatim>\<open>max(all_versions, key=lambda spec: spec.version, default=None)\<close>: the first
  element is the candidate, each later one replaces it when its key is greater.
\<close>

fun max_from :: "('ep, 'kw) EnvSpec \<Rightarrow> ('ep, 'kw) EnvSpec list \<Rightarrow> error + ('ep, 'kw) EnvSpec" where
  "max_from cur [] = Inr cur"
| "max_from cur (x # xs) =
     (case py_gt (version x) (version cur) of
        Inl e \<Rightarrow> Inl e
      | Inr b \<Rightarrow> max_from (if b then x else cur) xs)"

definition py_max :: "('ep, 'kw) EnvSpec list \<Rightarrow> error + ('ep, 'kw) EnvSpec option" where
  "py_max xs =
     (case xs of
        [] \<Rightarrow> Inr None
      | x # ys \<Rightarrow> (case max_from x ys of Inl e \<Rightarrow> Inl e | Inr m \<Rightarrow> Inr (Some m)))"

text \<open>
  \<^verbatim>\<open>sorted(all_versions, key=lambda spec: spec.version)\<close>: a stable sort by
  comparisons of the keys with \<^verbatim>\<open><\<close>; an element goes in before the elements
  that followed it in the input and are not less than it.
\<close>

fun py_insort :: "('ep, 'kw) EnvSpec \<Rightarrow> ('ep, 'kw) EnvSpec list \<Rightarrow> error + ('ep, 'kw) EnvSpec list" where
  "py_insort x [] = Inr [x]"
| "py_insort x (y # ys) =
     (case py_lt (version y) (version x) of
        Inl e \<Rightarrow> Inl e
      | Inr b \<Rightarrow>
          if b then (case py_insort x ys of Inl e \<Rightarrow> Inl e | Inr zs \<Rightarrow> Inr (y # zs))
          else Inr (x # y # ys))"

fun py_sorted :: "('ep, 'kw) EnvSpec list \<Rightarrow> error + ('ep, 'kw) EnvSpec list" where
  "py_sorted [] = Inr []"
| "py_sorted (x # xs) =
     (case py_sorted xs of Inl e \<Rightarrow> Inl e | Inr ys \<Rightarrow> py_insort x ys)"

text \<open>The f-string \<^verbatim>\<open>{version}\<close> of an optional version, and \<^verbatim>\<open>", ".join\<close>.\<close>

definition str_version :: "nat \<Rightarrow> int option \<Rightarrow> error + string" where
  "str_version m v = (case v of None \<Rightarrow> Inr ''None'' | Some i \<Rightarrow> py_str m i)"

fun join :: "string \<Rightarrow> string list \<Rightarrow> string" where
  "join sep [] = []"
| "join sep [x] = x"
| "join sep (x # y # ys) = x @ sep @ join sep (y # ys)"

text \<open>
  The strings \<^verbatim>\<open>`v{spec.version}`\<close> of the records of a list, formatted from the
  first record on, as \<^verbatim>\<open>join\<close> asks \<^verbatim>\<open>map\<close> for them.
\<close>

fun version_items :: "nat \<Rightarrow> ('ep, 'kw) EnvSpec list \<Rightarrow> error + string list" where
  "version_items m [] = Inr []"
| "version_items m (x # xs) =
     (case str_version m (version x) of
        Inl e \<Rightarrow> Inl e
      | Inr sv \<Rightarrow>
          (case version_items m xs of
             Inl e \<Rightarrow> Inl e
           | Inr items \<Rightarrow> Inr ((''`v'' @ sv @ ''`'') # items)))"

text \<open>
  \<^verbatim>\<open>_assert_version_exists\<close>, with the messages as the source builds them, in three
  parts: the beginning of the message, the exception of the last branch, and the
  function.
\<close>

definition version_message ::
  "nat \<Rightarrow> string option \<Rightarrow> string \<Rightarrow> int option \<Rightarrow> error + string" where
  "version_message m ns nm v =
     (case (case v of
              Some i \<Rightarrow>
                (case py_str m i of
                   Inl e \<Rightarrow> Inl e
                 | Inr si \<Rightarrow> Inr (''Environment version `v'' @ si @ ''` for `''))
            | None \<Rightarrow> Inr ''The default version for `'') of
        Inl e \<Rightarrow> Inl e
      | Inr message \<Rightarrow>
          Inr (message @ (case ns of Some n \<Rightarrow> n @ ''/'' | None \<Rightarrow> []) @ nm @ ''` ''))"

definition not_found ::
  "nat \<Rightarrow> string \<Rightarrow> string \<Rightarrow> ('ep, 'kw) EnvSpec list \<Rightarrow> error" where
  "not_found m message nm all_versions =
     (if all_versions \<noteq> [] then
        (case py_sorted all_versions of
           Inl e \<Rightarrow> e
         | Inr all_versions_sorted \<Rightarrow>
             (case version_items m all_versions_sorted of
                Inl e \<Rightarrow> e
              | Inr items \<Rightarrow>
                  VersionNotFound
                    (message @ nm @ '' could not be found. ''
                     @ ''Valid versions are: [ '' @ join '', '' items @ '' ].'')))
      else
        VersionNotFound
          (message @ nm @ '' could not be found. ''
           @ ''This environment appears to be unversioned.''))"

definition assert_version_exists ::
  "nat \<Rightarrow> ('ep, 'kw) EnvSpecTree \<Rightarrow> string option \<Rightarrow> string \<Rightarrow> int option \<Rightarrow> error + unit" where
  "assert_version_exists m t ns nm v =
     (case assert_name_exists t ns nm of
        Inl e \<Rightarrow> Inl e
      | Inr u \<Rightarrow>
          if has_key v (tree_ns_name t ns nm) then Inr ()
          else
            (let all_versions = map snd (tree_ns_name t ns nm)
             in case py_max all_versions of
                  Inl e \<Rightarrow> Inl e
                | Inr latest_spec \<Rightarrow>
                    (case version_message m ns nm v of
                       Inl e \<Rightarrow> Inl e
                     | Inr message \<Rightarrow>
                         (case latest_spec of
                            None \<Rightarrow> Inl (not_found m message nm all_versions)
                          | Some latest \<Rightarrow>
                              (case version latest of
                                 None \<Rightarrow> Inl (not_found m message nm all_versions)
                               | Some lv \<Rightarrow>
                                   (case v of
                                      None \<Rightarrow> Inl (not_found m message nm all_versions)
                                    | Some i \<Rightarrow>
                                        if i < lv then
                                          (case py_str m lv of
                                             Inl e \<Rightarrow> Inl e
                                           | Inr slv \<Rightarrow>
                                               Inl (DeprecatedEnv
                                                      (message @ ''is deprecated. ''
                                                       @ ''Please use the latest version `v''
                                                       @ slv @ ''`.'')))
                                        else Inl (not_found m message nm all_versions)))))))"

text \<open>\<^verbatim>\<open>__getitem__\<close>.\<close>

definition getitem ::
  "nat \<Rightarrow> ('ep, 'kw) EnvSpecTree \<Rightarrow> string \<Rightarrow> error + ('ep, 'kw) EnvSpec" where
  "getitem m t key =
     (case parse_env_id m key of
        Inl e \<Rightarrow> Inl e
      | Inr (ns, nm, v) \<Rightarrow>
          (case assert_version_exists m t ns nm v of
             Inl e \<Rightarrow> Inl e
           | Inr u \<Rightarrow>
               (case map_of (tree_ns_name t ns nm) v of
                  None \<Rightarrow> Inl KeyError
                | Some spec \<Rightarrow> Inr spec)))"

text \<open>\<^verbatim>\<open>__setitem__\<close>: the tree after the assignment.\<close>

definition setitem ::
  "nat \<Rightarrow> ('ep, 'kw) EnvSpecTree \<Rightarrow> string \<Rightarrow> ('ep, 'kw) EnvSpec
     \<Rightarrow> error + ('ep, 'kw) EnvSpecTree" where
  "setitem m t key val =
     (case parse_env_id m key of
        Inl e \<Rightarrow> Inl e
      | Inr (ns, nm, v) \<Rightarrow>
          (let vs = AList.update v val (tree_ns_name t ns nm);
               ns_names = AList.update nm vs (tree_ns t ns)
           in Inr (t\<lparr>tree := AList.update ns ns_names (tree t),
                      x_length := x_length t + 1\<rparr>)))"

text \<open>\<^verbatim>\<open>__delitem__\<close>: the tree after the deletion.\<close>

definition delitem ::
  "nat \<Rightarrow> ('ep, 'kw) EnvSpecTree \<Rightarrow> string \<Rightarrow> error + ('ep, 'kw) EnvSpecTree" where
  "delitem m t key =
     (case parse_env_id m key of
        Inl e \<Rightarrow> Inl e
      | Inr (ns, nm, v) \<Rightarrow>
          (case assert_version_exists m t ns nm v of
             Inl e \<Rightarrow> Inl e
           | Inr u \<Rightarrow>
               (let vs = AList.delete v (tree_ns_name t ns nm);
                    names1 = AList.update nm vs (tree_ns t ns);
                    names2 = (if length vs = 0 then AList.delete nm names1 else names1);
                    tree1 = AList.update ns names2 (tree t);
                    tree2 = (if length names2 = 0 then AList.delete ns tree1 else tree1)
                in Inr (t\<lparr>tree := tree2, x_length := x_length t - 1\<rparr>))))"

text \<open>\<^verbatim>\<open>__contains__\<close> and \<^verbatim>\<open>__len__\<close>.\<close>

definition contains :: "nat \<Rightarrow> ('ep, 'kw) EnvSpecTree \<Rightarrow> string \<Rightarrow> error + bool" where
  "contains m t key =
     (case parse_env_id m key of
        Inl e \<Rightarrow> Inl e
      | Inr (ns, nm, v) \<Rightarrow>
          if has_key ns (tree t) \<and> has_key nm (tree_ns t ns) \<and> has_key v (tree_ns_name t ns nm)
          then Inr True
          else Inr False)"

definition len :: "('ep, 'kw) EnvSpecTree \<Rightarrow> int" where
  "len t = x_length t"

text \<open>The leaf records in the order in which \<^verbatim>\<open>__iter__\<close> walks the tree.\<close>

definition leaves :: "('ep, 'kw) EnvSpecTree \<Rightarrow> ('ep, 'kw) EnvSpec list" where
  "leaves t = concat (map (\<lambda>(ns, ns_names). concat (map (\<lambda>(nm, vs). map snd vs) ns_names)) (tree t))"

subsection \<open>\<^verbatim>\<open>EnvRegistry\<close>\<close>

text \<open>The fields \<^verbatim>\<open>env_specs\<close> and \<^verbatim>\<open>_ns\<close>.\<close>

record ('ep, 'kw) EnvRegistry =
  env_specs :: "('ep, 'kw) EnvSpecTree"
  x_ns :: "string option"

definition EnvRegistry_init :: "('ep, 'kw) EnvRegistry" where
  "EnvRegistry_init = \<lparr>env_specs = EnvSpecTree_init, x_ns = None\<rparr>"

text \<open>
  \<^verbatim>\<open>EnvSpec(id, **kwargs)\<close>: the keyword arguments are the fields of the record
  \<open>args\<close> other than the three that \<^verbatim>\<open>__post_init__\<close> sets from the id.
\<close>

definition EnvSpec_init ::
  "nat \<Rightarrow> string \<Rightarrow> ('ep, 'kw) EnvSpec \<Rightarrow> error + ('ep, 'kw) EnvSpec" where
  "EnvSpec_init m ident args =
     (case parse_env_id m ident of
        Inl e \<Rightarrow> Inl e
      | Inr (ns, nm, v) \<Rightarrow> Inr (args\<lparr>namespace := ns, name := nm, version := v\<rparr>))"

text \<open>
  \<^verbatim>\<open>register\<close>: the outcome and the registry after the call. An exception leaves
  the registry as it was. The warnings go to the logger and change nothing here.
  The source reads \<^verbatim>\<open>spec.id\<close> twice, from the same fields; it is computed once
  here.
\<close>

definition register ::
  "nat \<Rightarrow> string \<Rightarrow> ('ep, 'kw) EnvSpec \<Rightarrow> ('ep, 'kw) EnvRegistry
     \<Rightarrow> (error + unit) \<times> ('ep, 'kw) EnvRegistry" where
  "register m ident args reg =
     (case EnvSpec_init m ident args of
        Inl e \<Rightarrow> (Inl e, reg)
      | Inr spec0 \<Rightarrow>
          (let spec = (case x_ns reg of None \<Rightarrow> spec0 | Some n \<Rightarrow> spec0\<lparr>namespace := Some n\<rparr>)
           in case env_id m spec of
                Inl e \<Rightarrow> (Inl e, reg)
              | Inr spec_id \<Rightarrow>
                  (case contains m (env_specs reg) spec_id of
                     Inl e \<Rightarrow> (Inl e, reg)
                   | Inr b \<Rightarrow>
                       (case setitem m (env_specs reg) spec_id spec of
                          Inl e \<Rightarrow> (Inl e, reg)
                        | Inr t \<Rightarrow> (Inr (), reg\<lparr>env_specs := t\<rparr>)))))"

text \<open>
  The context manager \<^verbatim>\<open>namespace\<close>, around a block \<open>body\<close> that runs on the registry
  and either raises or returns. \<^verbatim>\<open>contextlib.contextmanager\<close> throws an exception
  of the block into the generator at its \<^verbatim>\<open>yield\<close>; the generator has no
  \<^verbatim>\<open>try\<close> there, so the statement after the \<^verbatim>\<open>yield\<close> runs only when the block
  returns.
\<close>

definition namespace_scope ::
  "string \<Rightarrow> (('ep, 'kw) EnvRegistry \<Rightarrow> ('x + 'a) \<times> ('ep, 'kw) EnvRegistry)
     \<Rightarrow> ('ep, 'kw) EnvRegistry \<Rightarrow> ('x + 'a) \<times> ('ep, 'kw) EnvRegistry" where
  "namespace_scope ns body reg =
     (case body (reg\<lparr>x_ns := Some ns\<rparr>) of
        (Inl e, reg') \<Rightarrow> (Inl e, reg')
      | (Inr a, reg') \<Rightarrow> (Inr a, reg'\<lparr>x_ns := None\<rparr>))"


subsection \<open>\<^verbatim>\<open>EnvSpec.make\<close> on a store of objects\<close>

text \<open>
  \<^verbatim>\<open>make\<close> copies a dictionary, updates the copy and copies the spec, so what it
  leaves of the registered spec depends on which objects are shared. Here a
  spec is an object of the store, its field \<^verbatim>\<open>kwargs\<close> is a reference to a
  dictionary of the store, and a new object gets the next free reference.
\<close>

type_synonym ref = nat

datatype 'f entry = Callable 'f | ModulePath string

record ('f, 'v) store =
  spec_objs :: "ref \<rightharpoonup> ('f entry, ref) EnvSpec"
  dict_objs :: "ref \<rightharpoonup> (string \<times> 'v) list"
  next_ref :: ref

definition new_dict :: "(string \<times> 'v) list \<Rightarrow> ('f, 'v) store \<Rightarrow> ref \<times> ('f, 'v) store" where
  "new_dict d h =
     (next_ref h, h\<lparr>dict_objs := (dict_objs h)(next_ref h \<mapsto> d), next_ref := Suc (next_ref h)\<rparr>)"

definition new_spec :: "('f entry, ref) EnvSpec \<Rightarrow> ('f, 'v) store \<Rightarrow> ref \<times> ('f, 'v) store" where
  "new_spec sp h =
     (next_ref h, h\<lparr>spec_objs := (spec_objs h)(next_ref h \<mapsto> sp), next_ref := Suc (next_ref h)\<rparr>)"

text \<open>\<^verbatim>\<open>d.update(kwargs)\<close>: the assignments \<^verbatim>\<open>d[k] = v\<close> in the order of \<^verbatim>\<open>kwargs\<close>.\<close>

definition dict_update :: "('k \<times> 'v) list \<Rightarrow> ('k \<times> 'v) list \<Rightarrow> ('k \<times> 'v) list" where
  "dict_update d kw = fold (\<lambda>(k, v). AList.update k v) kw d"

text \<open>
  The environment \<^verbatim>\<open>make\<close> returns: the object the construction target built, with
  the reference stored in its attribute \<^verbatim>\<open>spec\<close>, under the wrappers put around it.
\<close>

datatype 'e env =
    Unwrapped 'e ref
  | TimeLimit "'e env" int
  | OrderEnforcing "'e env"

text \<open>
  \<^verbatim>\<open>copy.deepcopy(self)\<close>: a new spec object whose \<^verbatim>\<open>kwargs\<close> is a new dictionary with
  the entries of the old one.
\<close>

definition deepcopy_spec ::
  "('f entry, ref) EnvSpec \<Rightarrow> (string \<times> 'v) list \<Rightarrow> ('f, 'v) store \<Rightarrow> ref \<times> ('f, 'v) store" where
  "deepcopy_spec sp d h =
     (case new_dict d h of (d_ref, h1) \<Rightarrow> new_spec (sp\<lparr>kwargs := d_ref\<rparr>) h1)"

text \<open>
  \<^verbatim>\<open>make\<close>, for the spec object at \<open>self\<close> and the keyword arguments \<open>kw\<close> of the call.
  The construction target is code from outside: \<open>call f args\<close> is what calling \<open>f\<close>
  with the keyword arguments \<open>args\<close> returns or raises, and \<open>load_ep\<close> is the function
  \<^verbatim>\<open>load\<close> of the source, an import. The result is \<open>None\<close> when \<open>self\<close> or its
  \<^verbatim>\<open>kwargs\<close> is not an object of the store, which no Python state is.
\<close>

definition make ::
  "nat \<Rightarrow> ('f \<Rightarrow> (string \<times> 'v) list \<Rightarrow> error + 'e) \<Rightarrow> (string \<Rightarrow> error + 'f)
     \<Rightarrow> ref \<Rightarrow> (string \<times> 'v) list \<Rightarrow> ('f, 'v) store
     \<Rightarrow> ((error + 'e env) \<times> ('f, 'v) store) option" where
  "make m call load_ep self kw h =
     (case spec_objs h self of
        None \<Rightarrow> None
      | Some sp \<Rightarrow>
          (case entry_point sp of
             None \<Rightarrow>
               (case env_id m sp of
                  Inl e \<Rightarrow> Some (Inl e, h)
                | Inr sp_id \<Rightarrow> Some (Inl (NoEntryPoint sp_id), h))
           | Some ep \<Rightarrow>
               (case dict_objs h (kwargs sp) of
                  None \<Rightarrow> None
                | Some d \<Rightarrow>
                    (case new_dict d h of
                       (kw_ref, h1) \<Rightarrow>
                         (let merged = dict_update d kw;
                              h2 = h1\<lparr>dict_objs := (dict_objs h1)(kw_ref \<mapsto> merged)\<rparr>;
                              built =
                                (case ep of
                                   Callable f \<Rightarrow> call f merged
                                 | ModulePath p \<Rightarrow>
                                     (case load_ep p of
                                        Inl e \<Rightarrow> Inl e
                                      | Inr cls \<Rightarrow> call cls merged))
                          in case built of
                               Inl e \<Rightarrow> Some (Inl e, h2)
                             | Inr obj \<Rightarrow>
                                 (case deepcopy_spec sp d h2 of
                                    (spec_ref, h3) \<Rightarrow>
                                      (let spec = sp\<lparr>kwargs := kw_ref\<rparr>;
                                           h4 = h3\<lparr>spec_objs := (spec_objs h3)(spec_ref \<mapsto> spec)\<rparr>;
                                           env = Unwrapped obj spec_ref
                                       in case max_episode_steps spec of
                                            Some n \<Rightarrow> Some (Inr (TimeLimit env n), h4)
                                          | None \<Rightarrow>
                                              if order_enforce sp = Some True
                                              then Some (Inr (OrderEnforcing env), h4)
                                              else Some (Inr env, h4))))))))"

text \<open>The object under the wrappers, \<^verbatim>\<open>env.unwrapped\<close>.\<close>

fun unwrapped :: "'e env \<Rightarrow> 'e env" where
  "unwrapped (TimeLimit e n) = unwrapped e"
| "unwrapped (OrderEnforcing e) = unwrapped e"
| "unwrapped e = e"

subsection \<open>Example data\<close>

text \<open>
  Keyword arguments of a \<^verbatim>\<open>register\<close> call that gives an entry point and nothing
  else, for the concrete registries below.
\<close>

definition plain_args :: "(string entry, (string \<times> int) list) EnvSpec" where
  "plain_args =
     \<lparr>entry_point = Some (ModulePath ''pkg.envs:Env''), reward_threshold = None,
      nondeterministic = False, max_episode_steps = None, order_enforce = Some True,
      kwargs = [], namespace = None, name = [], version = None\<rparr>"

text \<open>
  A store with one registered spec, at reference 0, whose \<^verbatim>\<open>kwargs\<close> is the
  dictionary at reference 1, and a construction target that returns the
  arguments of its call.
\<close>

definition stored_spec :: "(string entry, ref) EnvSpec" where
  "stored_spec =
     \<lparr>entry_point = Some (Callable ''Env''), reward_threshold = None,
      nondeterministic = False, max_episode_steps = None, order_enforce = Some True,
      kwargs = 1, namespace = None, name = ''A'', version = Some 0\<rparr>"

definition small_store :: "(string, int) store" where
  "small_store =
     \<lparr>spec_objs = [0 \<mapsto> stored_spec],
      dict_objs = [1 \<mapsto> [(''x'', 1), (''y'', 2)]],
      next_ref = 2\<rparr>"

definition echo_call :: "string \<Rightarrow> (string \<times> int) list \<Rightarrow> error + (string \<times> (string \<times> int) list)" where
  "echo_call f args = Inr (f, args)"

definition no_load :: "string \<Rightarrow> error + string" where
  "no_load p = Inr p"

section \<open>Evaluation\<close>

lemma digit_char_eval:
  "digit_char 0 = CHR ''0''" "digit_char (Suc 0) = CHR ''1''" "digit_char 1 = CHR ''1''"
  "digit_char 2 = CHR ''2''" "digit_char 3 = CHR ''3''" "digit_char 4 = CHR ''4''"
  "digit_char 5 = CHR ''5''" "digit_char 6 = CHR ''6''" "digit_char 7 = CHR ''7''"
  "digit_char 8 = CHR ''8''" "digit_char 9 = CHR ''9''"
  by code_simp+

lemmas parse_eval =
  parse_env_id_def fullmatch_def at_end_def pattern_def namespace_rx_def name_rx_def
  version_rx_def ns_char_def name_char_def is_word_def is_digit_def int_of_digits_def
  digit_val_def py_int_def over_limit_def

declare str_nat.simps [simp del]

lemmas str_eval =
  env_id_def str_int_def str_version_def py_str_def over_limit_def digit_char_eval
  str_nat.simps

lemmas tree_eval =
  EnvRegistry_init_def EnvSpecTree_init_def register_def EnvSpec_init_def contains_def
  setitem_def getitem_def delitem_def len_def has_key_def tree_ns_def tree_ns_name_def
  assert_version_exists_def assert_name_exists_def assert_namespace_exists_def py_max_def
  version_message_def not_found_def

lemma parse_A_v0: "parse_env_id m ''A-v0'' = Inr (None, ''A'', Some 0)"
  by (simp add: parse_eval)

lemma parse_A_v1: "parse_env_id m ''A-v1'' = Inr (None, ''A'', Some 1)"
  by (simp add: parse_eval)

lemma parse_A_v2: "parse_env_id m ''A-v2'' = Inr (None, ''A'', Some 2)"
  by (simp add: parse_eval)

lemma parse_A: "parse_env_id m ''A'' = Inr (None, ''A'', None)"
  by (simp add: parse_eval)

lemma parse_two_slashes: "parse_env_id m ''a/b/c'' = Inl (MalformedId ''a/b/c'')"
  by (simp add: parse_eval)

section \<open>The namespace scope\<close>

text \<open>
  C1. The scope sets the override to \<open>ns\<close> on entry (the block reads \<open>Some ns\<close>) and
  clears it when the block returns. When the block raises, here by registering
  the malformed id \<^verbatim>\<open>a/b/c\<close>, the exception leaves the scope with the override
  still set to \<open>ns\<close>: the clearing statement after the \<^verbatim>\<open>yield\<close> is not reached.
\<close>

theorem namespace_scope_raise_keeps_override:
  "namespace_scope ns (\<lambda>r. (Inr (x_ns r), r)) reg = (Inr (Some ns), reg\<lparr>x_ns := None\<rparr>)
   \<and> namespace_scope ns (register m ''a/b/c'' args) reg
       = (Inl (MalformedId ''a/b/c''), reg\<lparr>x_ns := Some ns\<rparr>)"
  by (simp add: namespace_scope_def register_def EnvSpec_init_def parse_two_slashes)

section \<open>The size counter\<close>

text \<open>
  C2. Registering \<^verbatim>\<open>A-v0\<close> twice in a new registry: the second call overwrites
  the leaf, so the tree holds one record, and \<^verbatim>\<open>__len__\<close> answers 2, one more than
  after the first call.
\<close>

theorem register_twice_counts_twice:
  "len (env_specs (snd (register m ''A-v0'' args EnvRegistry_init))) = 1
   \<and> len (env_specs (snd (register m ''A-v0'' args
             (snd (register m ''A-v0'' args EnvRegistry_init))))) = 2
   \<and> length (leaves (env_specs (snd (register m ''A-v0'' args
                (snd (register m ''A-v0'' args EnvRegistry_init)))))) = 1"
  by (simp add: tree_eval str_eval parse_A_v0 leaves_def)

section \<open>Unknown and deprecated versions\<close>

text \<open>
  C3. With the unversioned \<^verbatim>\<open>A\<close> and \<^verbatim>\<open>A-v1\<close> registered, namespace and name of
  \<^verbatim>\<open>A-v0\<close> exist and version 0 is absent and less than 1; the lookup ends in
  Python's \<^verbatim>\<open>TypeError\<close>, raised by \<^verbatim>\<open>max\<close> when it orders \<^verbatim>\<open>None\<close> and 1, and not
  in \<^verbatim>\<open>DeprecatedEnv\<close>: the entry without a version is not ignored. With the
  unversioned \<^verbatim>\<open>A\<close> alone, the message of \<^verbatim>\<open>VersionNotFound\<close> lists it as a version,
  \<^verbatim>\<open>vNone\<close>.
\<close>

theorem getitem_mixed_versions_TypeError:
  "getitem m (env_specs (snd (register m ''A-v1'' args
             (snd (register m ''A'' args EnvRegistry_init))))) ''A-v0'' = Inl TypeError
   \<and> getitem m (env_specs (snd (register m ''A'' args EnvRegistry_init))) ''A-v0''
     = Inl (VersionNotFound
         ''Environment version `v0` for `A` A could not be found. Valid versions are: [ `vNone` ].'')"
  by (simp add: tree_eval str_eval parse_A parse_A_v1 parse_A_v0)

section \<open>Presence in the tree\<close>

lemma has_key_update [simp]: "has_key k (AList.update k' v d) = (k = k' \<or> has_key k d)"
  by (simp add: has_key_def update_conv')

lemma has_key_delete [simp]: "has_key k (AList.delete k' d) = (k \<noteq> k' \<and> has_key k d)"
  by (simp add: has_key_def delete_conv')

lemma has_key_Nil [simp]: "has_key k [] = False"
  by (simp add: has_key_def)

lemma has_key_iff: "has_key k d = (k \<in> fst ` set d)"
  by (simp add: has_key_def map_of_eq_None_iff)

lemma assert_version_exists_iff:
  "(assert_version_exists m t ns nm v = Inr u)
     = (has_key ns (tree t) \<and> has_key nm (tree_ns t ns) \<and> has_key v (tree_ns_name t ns nm))"
  by (simp add: assert_version_exists_def assert_name_exists_def assert_namespace_exists_def
        Let_def split: sum.splits option.splits)

lemma getitem_Inr_iff:
  "(getitem m t key = Inr spec)
     = (\<exists>ns nm v. parse_env_id m key = Inr (ns, nm, v) \<and> has_key ns (tree t)
          \<and> has_key nm (tree_ns t ns) \<and> map_of (tree_ns_name t ns nm) v = Some spec)"
proof (cases "parse_env_id m key")
  case (Inl e)
  then show ?thesis by (simp add: getitem_def)
next
  case (Inr p)
  obtain ns nm v where p: "p = (ns, nm, v)" by (cases p)
  show ?thesis
  proof (cases "assert_version_exists m t ns nm v")
    case (Inl e)
    then have "\<not> (has_key ns (tree t) \<and> has_key nm (tree_ns t ns) \<and> has_key v (tree_ns_name t ns nm))"
      using assert_version_exists_iff[of m t ns nm v "()"] by simp
    then show ?thesis using Inr p Inl by (auto simp: getitem_def has_key_def)
  next
    case (Inr u)
    then have "has_key ns (tree t) \<and> has_key nm (tree_ns t ns) \<and> has_key v (tree_ns_name t ns nm)"
      using assert_version_exists_iff[of m t ns nm v u] by simp
    then show ?thesis using \<open>parse_env_id m key = Inr p\<close> p Inr
      by (auto simp: getitem_def has_key_def split: option.splits)
  qed
qed

lemma parse_error: "parse_env_id m key = Inl e \<Longrightarrow> e = MalformedId key \<or> e = ValueError"
  by (auto simp: parse_env_id_def py_int_def split: option.splits if_splits)

lemma version_items_not_malformed: "version_items m xs \<noteq> Inl (MalformedId s)"
  by (induction xs) (auto simp: str_version_def py_str_def split: sum.splits option.splits)

lemma py_sorted_not_malformed: "py_sorted xs \<noteq> Inl (MalformedId s)"
proof -
  have a: "py_insort x ys \<noteq> Inl (MalformedId s)" for x :: "('a, 'b) EnvSpec" and ys
    by (induction ys) (auto split: sum.splits elim: py_lt.elims)
  show ?thesis
    by (induction xs) (auto simp: a split: sum.splits)
qed

lemma py_max_not_malformed: "py_max xs \<noteq> Inl (MalformedId s)"
proof -
  have c: "max_from x ys \<noteq> Inl (MalformedId s)" for x :: "('a, 'b) EnvSpec" and ys
    by (induction ys arbitrary: x) (auto split: sum.splits elim: py_gt.elims)
  show ?thesis
    using c by (auto simp: py_max_def split: list.splits sum.splits)
qed

lemma not_found_not_malformed: "not_found m message nm xs \<noteq> MalformedId s"
  using py_sorted_not_malformed[of xs s] version_items_not_malformed[of m _ s]
  by (auto simp: not_found_def split: sum.splits)

lemma assert_version_exists_not_malformed:
  "assert_version_exists m t ns nm v \<noteq> Inl (MalformedId s)"
  using py_max_not_malformed[of "map snd (tree_ns_name t ns nm)" s]
    not_found_not_malformed[of m _ nm "map snd (tree_ns_name t ns nm)" s]
  by (auto simp: assert_version_exists_def assert_name_exists_def assert_namespace_exists_def
      version_message_def py_str_def Let_def split: sum.splits option.splits if_splits)

lemma getitem_malformed_iff:
  "(getitem m t key = Inl (MalformedId s)) = (parse_env_id m key = Inl (MalformedId s))"
  using assert_version_exists_not_malformed[of m t _ _ _ s]
  by (auto simp: getitem_def split: sum.splits option.splits prod.splits)

text \<open>
  C9. On the string \<^verbatim>\<open>a/b/c\<close>, which the pattern does not match, \<^verbatim>\<open>__contains__\<close>
  raises the error of \<^verbatim>\<open>parse_env_id\<close>.
\<close>

theorem contains_raises_counterexample:
  "contains 4300 (EnvSpecTree_init :: (unit, unit) EnvSpecTree) ''a/b/c''
     = Inl (MalformedId ''a/b/c'')"
  by (simp add: contains_def parse_two_slashes)

text \<open>
  C9, as amended. \<^verbatim>\<open>__contains__\<close> parses the key as \<^verbatim>\<open>__getitem__\<close> does. For a key
  that parses it raises nothing and answers whether namespace, name and version
  are all present, which is exactly when \<^verbatim>\<open>__getitem__\<close> returns a record. For a
  key that does not parse it raises the error of the parser, and so does
  \<^verbatim>\<open>__getitem__\<close>: the malformed-identifier error, or \<^verbatim>\<open>ValueError\<close> where the parser
  raises that for a version of more digits than the interpreter converts.
\<close>

theorem contains_as_getitem:
  "contains m t key =
     (case parse_env_id m key of
        Inl e \<Rightarrow> Inl e
      | Inr (ns, nm, v) \<Rightarrow>
          Inr (has_key ns (tree t) \<and> has_key nm (tree_ns t ns) \<and> has_key v (tree_ns_name t ns nm)))
   \<and> (contains m t key = Inr True) = (\<exists>spec. getitem m t key = Inr spec)
   \<and> (contains m t key = Inl e) = (parse_env_id m key = Inl e)
   \<and> (contains m t key = Inl e)
       = ((e = MalformedId key \<or> e = ValueError \<and> parse_env_id m key = Inl ValueError)
          \<and> getitem m t key = Inl e)"
proof -
  have 1: "contains m t key =
     (case parse_env_id m key of
        Inl e \<Rightarrow> Inl e
      | Inr (ns, nm, v) \<Rightarrow>
          Inr (has_key ns (tree t) \<and> has_key nm (tree_ns t ns) \<and> has_key v (tree_ns_name t ns nm)))"
    by (simp add: contains_def split: sum.splits prod.splits)
  have 2: "(contains m t key = Inr True) = (\<exists>spec. getitem m t key = Inr spec)"
    unfolding getitem_Inr_iff 1
    by (auto simp: has_key_def split: sum.splits)
  have 3: "(contains m t key = Inl e) = (parse_env_id m key = Inl e)"
    unfolding 1 by (auto split: sum.splits)
  have g: "parse_env_id m key = Inl e \<Longrightarrow> getitem m t key = Inl e"
    by (simp add: getitem_def)
  have 4: "(contains m t key = Inl e)
       = ((e = MalformedId key \<or> e = ValueError \<and> parse_env_id m key = Inl ValueError)
          \<and> getitem m t key = Inl e)"
    unfolding 3 using parse_error[of m key e] getitem_malformed_iff[of m t key key] g
    by auto
  show ?thesis
    by (intro conjI) (rule 1, rule 2, rule 3, rule 4)
qed

section \<open>Set, get and delete\<close>

lemma tree_ns_setitem:
  "setitem m t key r = Inr t1 \<Longrightarrow> parse_env_id m key = Inr (ns, nm, v) \<Longrightarrow>
   tree_ns t1 ns = AList.update nm (AList.update v r (tree_ns_name t ns nm)) (tree_ns t ns)"
  by (auto simp: setitem_def tree_ns_def update_conv' Let_def)

lemma setitem_getitem: "setitem m t key r = Inr t1 \<Longrightarrow> getitem m t1 key = Inr r"
  unfolding getitem_Inr_iff
  by (auto simp: setitem_def tree_ns_def tree_ns_name_def update_conv' Let_def split: sum.splits)

lemma delitem_contains: "delitem m t key = Inr t' \<Longrightarrow> contains m t' key = Inr False"
  by (auto simp: delitem_def contains_def tree_ns_def tree_ns_name_def update_conv' delete_conv' Let_def
      split: sum.splits if_splits)

lemma setitem_delitem:
  assumes "setitem m t key r = Inr t1"
  shows "\<exists>t2. delitem m t1 key = Inr t2"
proof -
  obtain ns nm v where p: "parse_env_id m key = Inr (ns, nm, v)"
    using assms by (auto simp: setitem_def split: sum.splits)
  have "getitem m t1 key = Inr r" using assms by (rule setitem_getitem)
  then have "assert_version_exists m t1 ns nm v = Inr ()"
    using p by (auto simp: getitem_def split: sum.splits)
  then show ?thesis using p by (simp add: delitem_def Let_def)
qed

lemma delitem_last_version:
  assumes "delitem m t key = Inr t'" "parse_env_id m key = Inr (ns, nm, v)"
    and "fst ` set (tree_ns_name t ns nm) \<subseteq> {v}"
  shows "\<not> has_key nm (tree_ns t' ns)"
proof -
  have "AList.delete v (tree_ns_name t ns nm) = []"
    using assms(3) by (auto simp: AList.delete_eq filter_empty_conv)
  then show ?thesis using assms(1,2)
    by (auto simp: delitem_def tree_ns_def update_conv' delete_conv' Let_def
      split: sum.splits if_splits)
qed

lemma delitem_last_name:
  assumes "delitem m t key = Inr t'" "parse_env_id m key = Inr (ns, nm, v)"
    and "fst ` set (tree_ns_name t ns nm) \<subseteq> {v}" and "fst ` set (tree_ns t ns) \<subseteq> {nm}"
  shows "\<not> has_key ns (tree t')"
proof -
  have 1: "AList.delete v (tree_ns_name t ns nm) = []"
    using assms(3) by (auto simp: AList.delete_eq filter_empty_conv)
  have "AList.delete nm (tree_ns t ns) = []"
    using assms(4) by (auto simp: AList.delete_eq filter_empty_conv)
  then have 2: "AList.delete nm (AList.update nm [] (tree_ns t ns)) = []"
    by (simp add: delete_update_same)
  show ?thesis using assms(1,2) 1 2
    by (auto simp: delitem_def Let_def split: sum.splits if_splits)
qed

text \<open>
  C7. For every tree and every key that parses: the assignment succeeds and the
  lookup of the key then returns the record assigned; the deletion of the key
  then succeeds and the key is no longer contained. In any tree, a deletion of
  the only version of a name leaves the namespace without that name, and when
  that name was the only one of its namespace, leaves the tree without the
  namespace.
\<close>

theorem tree_set_get_delete:
  assumes "parse_env_id m key = Inr (ns, nm, v)"
  shows "(\<exists>t1. setitem m t key r = Inr t1 \<and> getitem m t1 key = Inr r
            \<and> (\<exists>t2. delitem m t1 key = Inr t2 \<and> contains m t2 key = Inr False))
       \<and> (\<forall>t'. delitem m t key = Inr t' \<and> fst ` set (tree_ns_name t ns nm) \<subseteq> {v} \<longrightarrow>
             \<not> has_key nm (tree_ns t' ns)
             \<and> (fst ` set (tree_ns t ns) \<subseteq> {nm} \<longrightarrow> \<not> has_key ns (tree t')))"
proof (rule conjI)
  obtain t1 where t1: "setitem m t key r = Inr t1"
    using assms by (simp add: setitem_def Let_def)
  obtain t2 where t2: "delitem m t1 key = Inr t2"
    using setitem_delitem[OF t1] by (elim exE)
  have g: "getitem m t1 key = Inr r" using t1 by (rule setitem_getitem)
  have c: "contains m t2 key = Inr False" using t2 by (rule delitem_contains)
  show "\<exists>t1. setitem m t key r = Inr t1 \<and> getitem m t1 key = Inr r
            \<and> (\<exists>t2. delitem m t1 key = Inr t2 \<and> contains m t2 key = Inr False)"
    by (intro exI[of _ t1] exI[of _ t2] conjI t1 t2 g c)
next
  show "\<forall>t'. delitem m t key = Inr t' \<and> fst ` set (tree_ns_name t ns nm) \<subseteq> {v} \<longrightarrow>
             \<not> has_key nm (tree_ns t' ns)
             \<and> (fst ` set (tree_ns t ns) \<subseteq> {nm} \<longrightarrow> \<not> has_key ns (tree t'))"
  proof (intro allI impI conjI)
    fix t' assume a: "delitem m t key = Inr t' \<and> fst ` set (tree_ns_name t ns nm) \<subseteq> {v}"
    show "\<not> has_key nm (tree_ns t' ns)"
      using delitem_last_version[OF _ assms] a by (elim conjE)
  next
    fix t' assume a: "delitem m t key = Inr t' \<and> fst ` set (tree_ns_name t ns nm) \<subseteq> {v}"
      and b: "fst ` set (tree_ns t ns) \<subseteq> {nm}"
    show "\<not> has_key ns (tree t')"
      using delitem_last_name[OF _ assms _ b] a by (elim conjE)
  qed
qed

theorem tree_set_get_delete_witness:
  "parse_env_id 4300 ''A-v0'' = Inr (None, ''A'', Some 0)
   \<and> setitem 4300 \<lparr>tree = [(None, [(''A'', [(Some 0, plain_args)])])], x_length = 1\<rparr> ''A-v0'' plain_args
       = Inr \<lparr>tree = [(None, [(''A'', [(Some 0, plain_args)])])], x_length = 2\<rparr>
   \<and> getitem 4300 \<lparr>tree = [(None, [(''A'', [(Some 0, plain_args)])])], x_length = 2\<rparr> ''A-v0''
       = Inr plain_args
   \<and> delitem 4300 \<lparr>tree = [(None, [(''A'', [(Some 0, plain_args)])])], x_length = 1\<rparr> ''A-v0''
       = Inr \<lparr>tree = [], x_length = 0\<rparr>
   \<and> fst ` set (tree_ns_name \<lparr>tree = [(None, [(''A'', [(Some 0, plain_args)])])], x_length = 1\<rparr>
                  None ''A'') \<subseteq> {Some 0}
   \<and> fst ` set (tree_ns \<lparr>tree = [(None, [(''A'', [(Some 0, plain_args)])])], x_length = 1\<rparr> None)
       \<subseteq> {''A''}
   \<and> \<not> has_key ''A'' (tree_ns (\<lparr>tree = [], x_length = 0\<rparr> :: (string entry, (string \<times> int) list) EnvSpecTree) None)
   \<and> \<not> has_key None (tree (\<lparr>tree = [], x_length = 0\<rparr> :: (string entry, (string \<times> int) list) EnvSpecTree))"
  using tree_set_get_delete [OF parse_A_v0 [of 4300],
      of "\<lparr>tree = [(None, [(''A'', [(Some 0, plain_args)])])], x_length = 1\<rparr>" plain_args]
  by (simp add: tree_eval parse_A_v0)

section \<open>Versions of a name\<close>

text \<open>
  C5. With \<^verbatim>\<open>CartPole-v1\<close> at the root and \<^verbatim>\<open>ALE/Breakout-v5\<close> in the tree, and
  \<^verbatim>\<open>Breakout\<close> relocated to \<^verbatim>\<open>ALE\<close> in the table, \<^verbatim>\<open>versions(None, "Breakout")\<close> meets
  the three conditions of the claim: no namespace, a relocated name, and
  registrations under the relocated namespace. It returns no sequence: the name
  is not registered at the root, and the first lookup, which is outside the
  \<^verbatim>\<open>try\<close>, raises \<^verbatim>\<open>NameNotFound\<close>.
\<close>

theorem versions_unregistered_base_counterexample:
  "versions [''Breakout'' \<mapsto> (Some ''ALE'', ''ale-py'')]
     \<lparr>tree =
        [(None, [(''CartPole'',
            [(Some 1, plain_args\<lparr>namespace := None, name := ''CartPole'', version := Some 1\<rparr>)])]),
         (Some ''ALE'', [(''Breakout'',
            [(Some 5, plain_args\<lparr>namespace := Some ''ALE'', name := ''Breakout'',
                                 version := Some 5\<rparr>)])])],
      x_length = 2\<rparr>
     None ''Breakout''
   = Inl NameNotFound"
  by (simp add: versions_def assert_name_exists_def assert_namespace_exists_def has_key_def
      tree_ns_def)

text \<open>
  C5, as amended. When the name is registered under the namespace, \<^verbatim>\<open>versions\<close>
  returns its records, followed by the records of the name under the relocated
  namespace exactly when the namespace asked for is \<^verbatim>\<open>None\<close>, the name is in the
  relocation table and the name is registered under the namespace the table
  gives; when that second lookup fails, its error is swallowed and the first
  records are returned alone. When the namespace or the name asked for is not
  registered, \<^verbatim>\<open>versions\<close> raises \<^verbatim>\<open>NamespaceNotFound\<close> or \<^verbatim>\<open>NameNotFound\<close>, whatever
  the relocation table holds.
\<close>

theorem versions_result:
  "versions reloc t ns nm =
     (if has_key ns (tree t) \<and> has_key nm (tree_ns t ns) then
        Inr (map snd (tree_ns_name t ns nm)
             @ (case reloc nm of
                  None \<Rightarrow> []
                | Some (rns, pkg) \<Rightarrow>
                    if ns = None \<and> has_key rns (tree t) \<and> has_key nm (tree_ns t rns)
                    then map snd (tree_ns_name t rns nm) else []))
      else Inl (if has_key ns (tree t) then NameNotFound else NamespaceNotFound))"
  by (simp add: versions_def assert_name_exists_def assert_namespace_exists_def Let_def
      split: option.splits)

section \<open>The identifier parser\<close>

subsection \<open>The matcher on the pattern\<close>

lemma greedy_plus_to_end:
  assumes "\<And>r. r \<noteq> [] \<Longrightarrow> k r = None"
  shows "greedy_plus p k s = (if s \<noteq> [] \<and> list_all p s then k [] else None)"
proof (induction s)
  case Nil
  show ?case by simp
next
  case (Cons x xs)
  show ?case
  proof (cases "xs = []")
    case True
    then show ?thesis by simp
  next
    case False
    have kx: "k xs = None" using assms False by simp
    have ih: "greedy_plus p k xs = (if list_all p xs then k [] else None)"
      using Cons.IH False by simp
    show ?thesis by (simp add: ih kx split: option.splits)
  qed
qed

lemma greedy_plus_SomeD:
  "greedy_plus p k s = Some r \<Longrightarrow> \<exists>a b. s = a @ b \<and> a \<noteq> [] \<and> list_all p a \<and> k b = Some r"
proof (induction s)
  case Nil
  then show ?case by simp
next
  case (Cons x xs)
  then have px: "p x" by (simp split: if_splits)
  show ?case
  proof (cases "greedy_plus p k xs")
    case None
    then have "k xs = Some r" using Cons.prems px by simp
    then have "x # xs = [x] @ xs \<and> [x] \<noteq> [] \<and> list_all p [x] \<and> k xs = Some r"
      using px by simp
    then show ?thesis by blast
  next
    case (Some r')
    then have "r' = r" using Cons.prems px by simp
    then obtain a b where "xs = a @ b" "a \<noteq> []" "list_all p a" "k b = Some r"
      using Cons.IH Some by blast
    then have "x # xs = (x # a) @ b \<and> x # a \<noteq> [] \<and> list_all p (x # a) \<and> k b = Some r"
      using px by simp
    then show ?thesis by blast
  qed
qed

lemma greedy_plus_None:
  assumes "\<And>a b. s = a @ b \<Longrightarrow> a \<noteq> [] \<Longrightarrow> k b = None"
  shows "greedy_plus p k s = None"
  using assms
proof (induction s)
  case Nil
  show ?case by simp
next
  case (Cons x xs)
  have 1: "greedy_plus p k xs = None"
  proof (rule Cons.IH)
    fix a b assume "xs = a @ b" "a \<noteq> []"
    then show "k b = None" using Cons.prems[of "x # a" b] by simp
  qed
  have 2: "k xs = None" using Cons.prems[of "[x]" xs] by simp
  show ?case using 1 2 by simp
qed

lemma greedy_plus_max:
  assumes "a \<noteq> []" "list_all p a" "b = [] \<or> \<not> p (hd b)" "k b = Some r"
  shows "greedy_plus p k (a @ b) = Some r"
  using assms(1,2)
proof (induction a)
  case Nil
  then show ?case by simp
next
  case (Cons x xs)
  show ?case
  proof (cases "xs = []")
    case True
    have "greedy_plus p k b = None" using assms(3) by (cases b) auto
    then show ?thesis using Cons.prems True assms(4) by simp
  next
    case False
    then have "greedy_plus p k (xs @ b) = Some r" using Cons.IH Cons.prems by simp
    then show ?thesis using Cons.prems by simp
  qed
qed

lemma lazy_plus_SomeD:
  "lazy_plus p k s = Some r \<Longrightarrow>
   \<exists>a b. s = a @ b \<and> a \<noteq> [] \<and> list_all p a \<and> k b = Some r
     \<and> (\<forall>a' c. a = a' @ c \<and> a' \<noteq> [] \<and> c \<noteq> [] \<longrightarrow> k (c @ b) = None)"
proof (induction s)
  case Nil
  then show ?case by simp
next
  case (Cons x xs)
  then have px: "p x" by (simp split: if_splits)
  show ?case
  proof (cases "k xs")
    case (Some r')
    then have "r' = r" using Cons.prems px by simp
    then have "x # xs = [x] @ xs \<and> [x] \<noteq> [] \<and> list_all p [x] \<and> k xs = Some r
       \<and> (\<forall>a' c. [x] = a' @ c \<and> a' \<noteq> [] \<and> c \<noteq> [] \<longrightarrow> k (c @ xs) = None)"
      using px Some by (auto simp: Cons_eq_append_conv)
    then show ?thesis by blast
  next
    case None
    then have "lazy_plus p k xs = Some r" using Cons.prems px by simp
    then obtain a b where ab: "xs = a @ b" "a \<noteq> []" "list_all p a" "k b = Some r"
      and m: "\<forall>a' c. a = a' @ c \<and> a' \<noteq> [] \<and> c \<noteq> [] \<longrightarrow> k (c @ b) = None"
      using Cons.IH by blast
    have "\<forall>a' c. x # a = a' @ c \<and> a' \<noteq> [] \<and> c \<noteq> [] \<longrightarrow> k (c @ b) = None"
    proof (intro allI impI)
      fix a' c assume h: "x # a = a' @ c \<and> a' \<noteq> [] \<and> c \<noteq> []"
      then obtain a'' where a'': "a' = x # a''" "a = a'' @ c"
        by (cases a') auto
      show "k (c @ b) = None"
      proof (cases "a'' = []")
        case True
        then show ?thesis using a'' ab(1) None by simp
      next
        case False
        then show ?thesis using m a'' h by blast
      qed
    qed
    then have "x # xs = (x # a) @ b \<and> x # a \<noteq> [] \<and> list_all p (x # a) \<and> k b = Some r
       \<and> (\<forall>a' c. x # a = a' @ c \<and> a' \<noteq> [] \<and> c \<noteq> [] \<longrightarrow> k (c @ b) = None)"
      using ab px by simp
    then show ?thesis by blast
  qed
qed

lemma lazy_plus_first:
  assumes "a \<noteq> []" "list_all p a" "k b = Some r"
    and "\<And>a' c. a = a' @ c \<Longrightarrow> a' \<noteq> [] \<Longrightarrow> c \<noteq> [] \<Longrightarrow> k (c @ b) = None"
  shows "lazy_plus p k (a @ b) = Some r"
  using assms(1,2,4)
proof (induction a)
  case Nil
  then show ?case by simp
next
  case (Cons x xs)
  show ?case
  proof (cases "xs = []")
    case True
    then show ?thesis using Cons.prems assms(3) by simp
  next
    case False
    have 1: "k (xs @ b) = None" using Cons.prems(3)[of "[x]" xs] False by simp
    have 2: "lazy_plus p k (xs @ b) = Some r"
    proof (rule Cons.IH)
      show "xs \<noteq> []" using False by simp
      show "list_all p xs" using Cons.prems by simp
      fix a' c assume "xs = a' @ c" "a' \<noteq> []" "c \<noteq> []"
      then show "k (c @ b) = None" using Cons.prems(3)[of "x # a'" c] by simp
    qed
    show ?thesis using 1 2 Cons.prems by simp
  qed
qed

lemma eol_at_end: "rx_match Eol r g at_end = at_end r g"
  by (simp add: at_end_def)

lemma version_rx_match: "rx_match version_rx s g at_end = version_groups s g"
proof (cases s)
  case Nil
  then show ?thesis by (simp add: version_rx_def version_groups_def at_end_def)
next
  case (Cons x xs)
  show ?thesis
  proof (cases xs)
    case Nil
    then show ?thesis using Cons by (simp add: version_rx_def version_groups_def at_end_def)
  next
    case (Cons y ys)
    have gp: "greedy_plus is_digit (\<lambda>r. at_end r (g(''version'' \<mapsto> take (length ys - length r) ys))) ys
        = (if ys \<noteq> [] \<and> list_all is_digit ys then Some (g(''version'' \<mapsto> ys)) else None)"
      by (subst greedy_plus_to_end) (simp_all add: at_end_def)
    show ?thesis using \<open>s = x # xs\<close> Cons
      by (simp add: version_rx_def version_groups_def gp) (simp add: at_end_def)
  qed
qed

lemma name_version_match:
  "rx_match (Seq name_rx (Seq version_rx Eol)) w g at_end
     = lazy_plus name_char (\<lambda>r. version_groups r (g(''name'' \<mapsto> take (length w - length r) w))) w"
  by (simp del: rx_match.simps(7) add: eol_at_end version_rx_match name_rx_def)

lemma fullmatch_pattern:
  "fullmatch pattern s =
     (case greedy_plus ns_char
             (\<lambda>r. case r of
                     [] \<Rightarrow> None
                   | x # xs \<Rightarrow>
                       if x = CHR ''/'' then
                         lazy_plus name_char
                           (\<lambda>r'. version_groups r'
                                   ([''namespace'' \<mapsto> take (length s - length r) s,
                                     ''name'' \<mapsto> take (length xs - length r') xs])) xs
                       else None) s of
        Some g \<Rightarrow> Some g
      | None \<Rightarrow>
          lazy_plus name_char (\<lambda>r'. version_groups r' [''name'' \<mapsto> take (length s - length r') s]) s)"
  by (simp del: rx_match.simps(7)
      add: fullmatch_def pattern_def namespace_rx_def eol_at_end version_rx_match name_rx_def)

lemma version_groups_None_iff:
  "(version_groups s g = None) = (s \<noteq> [] \<and> \<not> is_version_suffix s)"
  by (simp add: version_groups_def)

lemma name_part_SomeD:
  assumes "lazy_plus name_char
             (\<lambda>r. version_groups r (g(''name'' \<mapsto> take (length w - length r) w))) w = Some g'"
  shows "\<exists>nm suf. w = nm @ suf \<and> nm \<noteq> [] \<and> list_all name_char nm
           \<and> (suf = [] \<or> is_version_suffix suf) \<and> minimal_name nm suf
           \<and> version_groups suf (g(''name'' \<mapsto> nm)) = Some g'"
proof -
  obtain a b where ab: "w = a @ b" "a \<noteq> []" "list_all name_char a"
    and kb: "version_groups b (g(''name'' \<mapsto> take (length w - length b) w)) = Some g'"
    and m: "\<forall>a' c. a = a' @ c \<and> a' \<noteq> [] \<and> c \<noteq> [] \<longrightarrow>
              version_groups (c @ b) (g(''name'' \<mapsto> take (length w - length (c @ b)) w)) = None"
    using lazy_plus_SomeD[OF assms] by blast
  have t: "take (length w - length b) w = a" using ab(1) by simp
  have 1: "version_groups b (g(''name'' \<mapsto> a)) = Some g'" using kb t by simp
  have 2: "b = [] \<or> is_version_suffix b"
    using 1 by (auto simp: version_groups_def split: if_splits)
  have 3: "minimal_name a b"
    unfolding minimal_name_def using m by (auto simp: version_groups_None_iff)
  show ?thesis using ab 1 2 3 by blast
qed

lemma name_part_first:
  assumes "nm \<noteq> []" "list_all name_char nm" "suf = [] \<or> is_version_suffix suf"
    and "minimal_name nm suf"
  shows "lazy_plus name_char
           (\<lambda>r. version_groups r (g(''name'' \<mapsto> take (length (nm @ suf) - length r) (nm @ suf))))
           (nm @ suf)
         = version_groups suf (g(''name'' \<mapsto> nm))"
proof -
  have "version_groups suf (g(''name'' \<mapsto> nm)) \<noteq> None"
    using assms(3) by (simp add: version_groups_None_iff)
  then obtain g' where g': "version_groups suf (g(''name'' \<mapsto> nm)) = Some g'"
    by (cases "version_groups suf (g(''name'' \<mapsto> nm))") simp_all
  have "lazy_plus name_char
           (\<lambda>r. version_groups r (g(''name'' \<mapsto> take (length (nm @ suf) - length r) (nm @ suf))))
           (nm @ suf) = Some g'"
  proof (rule lazy_plus_first[OF assms(1,2)])
    show "version_groups suf (g(''name'' \<mapsto> take (length (nm @ suf) - length suf) (nm @ suf)))
            = Some g'"
      using g' by simp
  next
    fix a' c assume "nm = a' @ c" "a' \<noteq> []" "c \<noteq> []"
    then have "\<not> is_version_suffix (c @ suf)" using assms(4) by (auto simp: minimal_name_def)
    then show "version_groups (c @ suf)
        (g(''name'' \<mapsto> take (length (nm @ suf) - length (c @ suf)) (nm @ suf))) = None"
      using \<open>c \<noteq> []\<close> by (simp add: version_groups_None_iff)
  qed
  then show ?thesis using g' by simp
qed

lemma not_ns_char_slash: "\<not> ns_char (CHR ''/'')"
  by (simp add: ns_char_def is_word_def)

lemma not_name_char_slash: "\<not> name_char (CHR ''/'')"
  by (simp add: name_char_def is_word_def)

lemma not_digit_slash: "\<not> is_digit (CHR ''/'')"
  by (simp add: is_digit_def)

lemma not_digit_dash: "\<not> is_digit (CHR ''-'')"
  by (simp add: is_digit_def)

lemma version_suffix_no_slash: "is_version_suffix s \<Longrightarrow> CHR ''/'' \<notin> set s"
proof (induction s rule: is_version_suffix.induct)
  case (1 c1 c2 ds)
  then have "list_all is_digit ds" "c1 = CHR ''-''" "c2 = CHR ''v''" by simp_all
  then show ?case using not_digit_slash by (auto simp: list_all_iff)
qed simp_all

lemma list_all_no_slash: "list_all name_char s \<Longrightarrow> CHR ''/'' \<notin> set s"
  using not_name_char_slash by (auto simp: list_all_iff)

lemma version_groups_SomeD:
  assumes "version_groups suf g = Some G"
  shows "G = (if suf = [] then g else g(''version'' \<mapsto> drop 2 suf))"
  using assms by (auto simp: version_groups_def split: if_splits)

text \<open>What a match of the pattern looks like, and which match a string of that form has.\<close>

lemma fullmatch_shape:
  assumes "fullmatch pattern s = Some G"
  shows "\<exists>nm suf. s = (case G ''namespace'' of None \<Rightarrow> [] | Some n \<Rightarrow> n @ ''/'') @ nm @ suf
           \<and> G ''name'' = Some nm \<and> nm \<noteq> [] \<and> list_all name_char nm
           \<and> (suf = [] \<or> is_version_suffix suf) \<and> minimal_name nm suf
           \<and> G ''version'' = (if suf = [] then None else Some (drop 2 suf))
           \<and> (\<forall>n. G ''namespace'' = Some n \<longrightarrow> n \<noteq> [] \<and> list_all ns_char n)"
proof -
  let ?k = "\<lambda>r. case r of
                     [] \<Rightarrow> None
                   | x # xs \<Rightarrow>
                       if x = CHR ''/'' then
                         lazy_plus name_char
                           (\<lambda>r'. version_groups r'
                                   ([''namespace'' \<mapsto> take (length s - length r) s,
                                     ''name'' \<mapsto> take (length xs - length r') xs])) xs
                       else None"
  show ?thesis
  proof (cases "greedy_plus ns_char ?k s")
    case None
    then have "lazy_plus name_char
        (\<lambda>r'. version_groups r' [''name'' \<mapsto> take (length s - length r') s]) s = Some G"
      using assms by (simp add: fullmatch_pattern)
    then obtain nm suf where w: "s = nm @ suf" "nm \<noteq> []" "list_all name_char nm"
      "suf = [] \<or> is_version_suffix suf" "minimal_name nm suf"
      and vg: "version_groups suf [''name'' \<mapsto> nm] = Some G"
      using name_part_SomeD[of Map.empty s G] by blast
    have Geq: "G = (if suf = [] then [''name'' \<mapsto> nm]
                    else [''name'' \<mapsto> nm, ''version'' \<mapsto> drop 2 suf])"
      using version_groups_SomeD[OF vg] .
    have "G ''name'' = Some nm" "G ''namespace'' = None"
      "G ''version'' = (if suf = [] then None else Some (drop 2 suf))"
      using Geq by (simp_all split: if_splits)
    then show ?thesis using w by auto
  next
    case (Some G')
    then have "G' = G" using assms by (simp add: fullmatch_pattern)
    then obtain a b where ab: "s = a @ b" "a \<noteq> []" "list_all ns_char a" and kb: "?k b = Some G"
      using greedy_plus_SomeD[OF Some] by blast
    obtain xs where b: "b = CHR ''/'' # xs"
      using kb by (cases b) (auto split: if_splits)
    have t: "take (length s - length b) s = a" using ab(1) by simp
    have "lazy_plus name_char
        (\<lambda>r'. version_groups r' ([''namespace'' \<mapsto> a, ''name'' \<mapsto> take (length xs - length r') xs])) xs
        = Some G"
      using kb b t by simp
    then obtain nm suf where w: "xs = nm @ suf" "nm \<noteq> []" "list_all name_char nm"
      "suf = [] \<or> is_version_suffix suf" "minimal_name nm suf"
      and vg: "version_groups suf [''namespace'' \<mapsto> a, ''name'' \<mapsto> nm] = Some G"
      using name_part_SomeD[of "[''namespace'' \<mapsto> a]" xs G] by blast
    have Geq: "G = (if suf = [] then [''namespace'' \<mapsto> a, ''name'' \<mapsto> nm]
                    else [''namespace'' \<mapsto> a, ''name'' \<mapsto> nm, ''version'' \<mapsto> drop 2 suf])"
      using version_groups_SomeD[OF vg] .
    have "G ''name'' = Some nm" "G ''namespace'' = Some a"
      "G ''version'' = (if suf = [] then None else Some (drop 2 suf))"
      using Geq by (simp_all split: if_splits)
    then show ?thesis using w ab b by auto
  qed
qed

lemma fullmatch_of_shape:
  assumes "nm \<noteq> []" "list_all name_char nm" "suf = [] \<or> is_version_suffix suf"
    and "minimal_name nm suf" and "\<forall>n. ns = Some n \<longrightarrow> n \<noteq> [] \<and> list_all ns_char n"
  shows "\<exists>G. fullmatch pattern ((case ns of None \<Rightarrow> [] | Some n \<Rightarrow> n @ ''/'') @ nm @ suf) = Some G
           \<and> G ''namespace'' = ns \<and> G ''name'' = Some nm
           \<and> G ''version'' = (if suf = [] then None else Some (drop 2 suf))"
proof (cases ns)
  case None
  let ?s = "nm @ suf"
  let ?k = "\<lambda>r. case r of
                     [] \<Rightarrow> None
                   | x # xs \<Rightarrow>
                       if x = CHR ''/'' then
                         lazy_plus name_char
                           (\<lambda>r'. version_groups r'
                                   ([''namespace'' \<mapsto> take (length ?s - length r) ?s,
                                     ''name'' \<mapsto> take (length xs - length r') xs])) xs
                       else None"
  have ns: "CHR ''/'' \<notin> set ?s"
    using assms(2,3) list_all_no_slash version_suffix_no_slash by auto
  have gp: "greedy_plus ns_char ?k ?s = None"
  proof (rule greedy_plus_None)
    fix a b assume "?s = a @ b" "a \<noteq> []"
    then have "set b \<subseteq> set ?s" by (metis set_append Un_upper2)
    then show "?k b = None" using ns by (cases b) auto
  qed
  have "fullmatch pattern ?s = version_groups suf [''name'' \<mapsto> nm]"
    using gp name_part_first[OF assms(1-4), of Map.empty] by (simp add: fullmatch_pattern)
  then show ?thesis using None assms(3)
    by (auto simp: version_groups_def)
next
  case (Some n)
  let ?s = "n @ CHR ''/'' # nm @ suf"
  let ?k = "\<lambda>r. case r of
                     [] \<Rightarrow> None
                   | x # xs \<Rightarrow>
                       if x = CHR ''/'' then
                         lazy_plus name_char
                           (\<lambda>r'. version_groups r'
                                   ([''namespace'' \<mapsto> take (length ?s - length r) ?s,
                                     ''name'' \<mapsto> take (length xs - length r') xs])) xs
                       else None"
  have n: "n \<noteq> []" "list_all ns_char n" using assms(5) Some by simp_all
  have vg: "version_groups suf [''namespace'' \<mapsto> n, ''name'' \<mapsto> nm]
      = Some (if suf = [] then [''namespace'' \<mapsto> n, ''name'' \<mapsto> nm]
              else [''namespace'' \<mapsto> n, ''name'' \<mapsto> nm, ''version'' \<mapsto> drop 2 suf])"
    using assms(3) by (auto simp: version_groups_def)
  have kb: "?k (CHR ''/'' # nm @ suf)
      = Some (if suf = [] then [''namespace'' \<mapsto> n, ''name'' \<mapsto> nm]
              else [''namespace'' \<mapsto> n, ''name'' \<mapsto> nm, ''version'' \<mapsto> drop 2 suf])"
    using name_part_first[OF assms(1-4), of "[''namespace'' \<mapsto> n]"] vg by simp
  have "greedy_plus ns_char ?k (n @ (CHR ''/'' # nm @ suf))
      = Some (if suf = [] then [''namespace'' \<mapsto> n, ''name'' \<mapsto> nm]
              else [''namespace'' \<mapsto> n, ''name'' \<mapsto> nm, ''version'' \<mapsto> drop 2 suf])"
  proof (rule greedy_plus_max[where b = "CHR ''/'' # nm @ suf"])
    show "n \<noteq> []" by (rule n(1))
    show "list_all ns_char n" by (rule n(2))
    show "CHR ''/'' # nm @ suf = [] \<or> \<not> ns_char (hd (CHR ''/'' # nm @ suf))"
      by (simp add: not_ns_char_slash)
    show "?k (CHR ''/'' # nm @ suf)
      = Some (if suf = [] then [''namespace'' \<mapsto> n, ''name'' \<mapsto> nm]
              else [''namespace'' \<mapsto> n, ''name'' \<mapsto> nm, ''version'' \<mapsto> drop 2 suf])"
      by (rule kb)
  qed
  then have "fullmatch pattern ?s
      = Some (if suf = [] then [''namespace'' \<mapsto> n, ''name'' \<mapsto> nm]
              else [''namespace'' \<mapsto> n, ''name'' \<mapsto> nm, ''version'' \<mapsto> drop 2 suf])"
    by (simp add: fullmatch_pattern)
  then show ?thesis using Some by simp
qed

text \<open>
  The group \<^verbatim>\<open>name\<close> is set in every match, so the parser raises the
  malformed-identifier error only where the match fails, and \<^verbatim>\<open>ValueError\<close> only
  where \<^verbatim>\<open>int\<close> refuses the version of a match.
\<close>

lemma fullmatch_pattern_name:
  assumes "fullmatch pattern s = Some G"
  shows "G ''name'' \<noteq> None"
  using fullmatch_shape[OF assms] by auto

lemma parse_malformed_iff:
  "(parse_env_id m s = Inl (MalformedId s')) = (fullmatch pattern s = None \<and> s' = s)"
  using fullmatch_pattern_name[of s]
  by (auto simp: parse_env_id_def py_int_def split: option.splits if_splits)

lemma parse_ValueError_iff:
  "(parse_env_id m s = Inl ValueError)
     = (\<exists>G ds. fullmatch pattern s = Some G \<and> G ''version'' = Some ds
                \<and> over_limit m (length ds))"
  using fullmatch_pattern_name[of s]
  by (auto simp: parse_env_id_def py_int_def split: option.splits if_splits)

lemma parse_shape:
  assumes "parse_env_id m s = Inr (ns, nm, v)"
  shows "\<exists>suf. s = (case ns of None \<Rightarrow> [] | Some n \<Rightarrow> n @ ''/'') @ nm @ suf
           \<and> nm \<noteq> [] \<and> list_all name_char nm
           \<and> (suf = [] \<or> is_version_suffix suf) \<and> minimal_name nm suf
           \<and> v = (if suf = [] then None else Some (int_of_digits (drop 2 suf)))
           \<and> (suf = [] \<or> \<not> over_limit m (length (drop 2 suf)))
           \<and> (\<forall>n. ns = Some n \<longrightarrow> n \<noteq> [] \<and> list_all ns_char n)"
proof -
  obtain G where G: "fullmatch pattern s = Some G"
    and Gn: "G ''name'' = Some nm" "ns = G ''namespace''"
    and Gv: "G ''version'' = None \<and> v = None
             \<or> (\<exists>ds. G ''version'' = Some ds \<and> \<not> over_limit m (length ds)
                      \<and> v = Some (int_of_digits ds))"
    using assms
    by (auto simp: parse_env_id_def py_int_def split: option.splits if_splits)
  obtain nm' suf where sh:
    "s = (case G ''namespace'' of None \<Rightarrow> [] | Some n \<Rightarrow> n @ ''/'') @ nm' @ suf"
    "G ''name'' = Some nm'" "nm' \<noteq> []" "list_all name_char nm'"
    "suf = [] \<or> is_version_suffix suf" "minimal_name nm' suf"
    "G ''version'' = (if suf = [] then None else Some (drop 2 suf))"
    "\<forall>n. G ''namespace'' = Some n \<longrightarrow> n \<noteq> [] \<and> list_all ns_char n"
    using fullmatch_shape[OF G] by blast
  have nm: "nm' = nm" using sh(2) Gn(1) by simp
  have v: "v = (if suf = [] then None else Some (int_of_digits (drop 2 suf)))"
    using Gv sh(7) by (auto split: if_splits)
  have l: "suf = [] \<or> \<not> over_limit m (length (drop 2 suf))"
    using Gv sh(7) by (auto split: if_splits)
  show ?thesis
    using sh(1,3,4,5,6,8) nm v l Gn(2) by (intro exI[of _ suf]) simp
qed

lemma parse_of_shape:
  assumes "nm \<noteq> []" "list_all name_char nm" "suf = [] \<or> is_version_suffix suf"
    and "minimal_name nm suf" and "\<forall>n. ns = Some n \<longrightarrow> n \<noteq> [] \<and> list_all ns_char n"
  shows "parse_env_id m ((case ns of None \<Rightarrow> [] | Some n \<Rightarrow> n @ ''/'') @ nm @ suf)
           = (if suf = [] then Inr (ns, nm, None)
              else if over_limit m (length (drop 2 suf)) then Inl ValueError
              else Inr (ns, nm, Some (int_of_digits (drop 2 suf))))"
proof -
  obtain G where
    "fullmatch pattern ((case ns of None \<Rightarrow> [] | Some n \<Rightarrow> n @ ''/'') @ nm @ suf) = Some G"
    "G ''namespace'' = ns" "G ''name'' = Some nm"
    "G ''version'' = (if suf = [] then None else Some (drop 2 suf))"
    using fullmatch_of_shape[OF assms] by blast
  then show ?thesis by (simp add: parse_env_id_def py_int_def)
qed

subsection \<open>Decimal numbers\<close>

lemma digit_char_is_digit: "d < 10 \<Longrightarrow> is_digit (digit_char d)"
  by (simp add: is_digit_def digit_char_def)

lemma digit_val_digit_char: "d < 10 \<Longrightarrow> digit_val (digit_char d) = int d"
  by (simp add: digit_val_def digit_char_def)

lemma str_nat_digits: "str_nat n \<noteq> [] \<and> list_all is_digit (str_nat n)"
proof (induction n rule: str_nat.induct)
  case (1 n)
  show ?case
  proof (cases "n < 10")
    case True
    then show ?thesis by (subst (1 2) str_nat.simps) (simp add: digit_char_is_digit)
  next
    case False
    then show ?thesis using 1
      by (subst (1 2) str_nat.simps) (simp add: digit_char_is_digit)
  qed
qed

lemma int_of_digits_snoc: "int_of_digits (ds @ [c]) = 10 * int_of_digits ds + digit_val c"
  by (simp add: int_of_digits_def)

lemma int_of_digits_str_nat: "int_of_digits (str_nat n) = int n"
proof (induction n rule: str_nat.induct)
  case (1 n)
  show ?case
  proof (cases "n < 10")
    case True
    then show ?thesis
      by (subst str_nat.simps) (simp add: int_of_digits_def digit_val_digit_char)
  next
    case False
    then have "int_of_digits (str_nat (n div 10)) = int (n div 10)" using 1 by simp
    then have "int_of_digits (str_nat n) = 10 * int (n div 10) + int (n mod 10)"
      using False
      by (subst str_nat.simps) (simp add: int_of_digits_snoc digit_val_digit_char)
    then show ?thesis by (simp add: zdiv_int zmod_int)
  qed
qed

lemma digit_val_bounds: "is_digit c \<Longrightarrow> 0 \<le> digit_val c \<and> digit_val c \<le> 9"
  by (simp add: is_digit_def digit_val_def)

lemma int_of_digits_bounds:
  "list_all is_digit ds \<Longrightarrow> 0 \<le> int_of_digits ds \<and> int_of_digits ds < 10 ^ length ds"
proof (induction ds rule: rev_induct)
  case Nil
  show ?case by (simp add: int_of_digits_def)
next
  case (snoc c ds)
  then have "0 \<le> int_of_digits ds" "int_of_digits ds < 10 ^ length ds"
    "0 \<le> digit_val c" "digit_val c \<le> 9"
    by (simp_all add: digit_val_bounds)
  then show ?case by (simp add: int_of_digits_snoc)
qed

text \<open>The decimal digits of a number are no more than the digits it was read from.\<close>

lemma str_nat_length: "n < 10 ^ k \<Longrightarrow> 0 < k \<Longrightarrow> length (str_nat n) \<le> k"
proof (induction n arbitrary: k rule: str_nat.induct)
  case (1 n)
  show ?case
  proof (cases "n < 10")
    case True
    then show ?thesis using "1.prems"(2) by (subst str_nat.simps) simp
  next
    case False
    obtain j where k: "k = Suc j" using "1.prems"(2) by (cases k) simp_all
    have j: "0 < j"
    proof (cases j)
      case 0
      then show ?thesis using "1.prems"(1) False k by simp
    qed simp
    have "n div 10 < 10 ^ j" using "1.prems"(1) k by (simp add: less_mult_imp_div_less)
    then have "length (str_nat (n div 10)) \<le> j" using "1.IH"[OF False _ j] by simp
    then show ?thesis using False k by (subst str_nat.simps) simp
  qed
qed

lemma str_nat_int_of_digits_length:
  assumes "ds \<noteq> []" "list_all is_digit ds"
  shows "length (str_nat (nat (int_of_digits ds))) \<le> length ds"
proof -
  have b: "0 \<le> int_of_digits ds" "int_of_digits ds < 10 ^ length ds"
    using int_of_digits_bounds[OF assms(2)] by simp_all
  have "int (nat (int_of_digits ds)) < int (10 ^ length ds)" using b by simp
  then have "nat (int_of_digits ds) < 10 ^ length ds" by (simp only: of_nat_less_iff)
  then show ?thesis using assms(1) by (intro str_nat_length) simp_all
qed

lemma over_limit_mono: "over_limit m k \<Longrightarrow> k \<le> n \<Longrightarrow> over_limit m n"
  by (simp add: over_limit_def)

lemma version_suffix_canonical:
  assumes "0 \<le> i"
  shows "is_version_suffix (''-v'' @ str_int i)" and "int_of_digits (str_int i) = i"
  using assms str_nat_digits[of "nat i"] int_of_digits_str_nat[of "nat i"]
  by (simp_all add: str_int_def)

lemma minimal_name_version: "list_all is_digit ds \<Longrightarrow> minimal_name nm (''-v'' @ ds)"
proof (unfold minimal_name_def, intro allI impI)
  fix a c assume ds: "list_all is_digit ds" and h: "nm = a @ c \<and> a \<noteq> [] \<and> c \<noteq> []"
  show "\<not> is_version_suffix (c @ ''-v'' @ ds)"
  proof (cases c)
    case Nil
    then show ?thesis using h by simp
  next
    case (Cons x xs)
    show ?thesis
    proof (cases xs)
      case Nil
      then show ?thesis using Cons by simp
    next
      case (Cons y ys)
      then show ?thesis using \<open>c = x # xs\<close> not_digit_dash by simp
    qed
  qed
qed

lemma version_suffix_digits:
  "is_version_suffix suf \<Longrightarrow> drop 2 suf \<noteq> [] \<and> list_all is_digit (drop 2 suf)"
  by (induction suf rule: is_version_suffix.induct) simp_all

subsection \<open>The canonical string\<close>

text \<open>
  The \<^verbatim>\<open>id\<close> of the triple of a parsed string: the conversion of the version is
  within the limit, since the digits parsed were, and the string parses to the
  same triple.
\<close>

lemma parse_canonical:
  assumes "parse_env_id m s = Inr (ns, nm, v)"
  shows "\<exists>c. env_id m (args\<lparr>namespace := ns, name := nm, version := v\<rparr>) = Inr c
            \<and> c = (case ns of None \<Rightarrow> [] | Some n \<Rightarrow> n @ ''/'') @ nm
                    @ (case v of None \<Rightarrow> [] | Some i \<Rightarrow> ''-v'' @ str_int i)
            \<and> parse_env_id m c = Inr (ns, nm, v)"
proof -
  obtain suf where sh: "nm \<noteq> []" "list_all name_char nm"
    "suf = [] \<or> is_version_suffix suf" "minimal_name nm suf"
    "v = (if suf = [] then None else Some (int_of_digits (drop 2 suf)))"
    "\<forall>n. ns = Some n \<longrightarrow> n \<noteq> [] \<and> list_all ns_char n"
    and lim: "suf = [] \<or> \<not> over_limit m (length (drop 2 suf))"
    using parse_shape[OF assms] by blast
  show ?thesis
  proof (cases "suf = []")
    case True
    then have v: "v = None" using sh(5) by simp
    have "parse_env_id m ((case ns of None \<Rightarrow> [] | Some n \<Rightarrow> n @ ''/'') @ nm @ [])
        = Inr (ns, nm, None)"
      using parse_of_shape[OF sh(1,2) _ _ sh(6), of "[]" m] sh(4) True by simp
    then show ?thesis using v by (simp add: env_id_def)
  next
    case False
    define ds where "ds = drop 2 suf"
    define i where "i = int_of_digits ds"
    have v: "v = Some i" using sh(5) False by (simp add: i_def ds_def)
    have "is_version_suffix suf" using sh(3) False by simp
    then have ds: "ds \<noteq> []" "list_all is_digit ds"
      using version_suffix_digits[of suf] by (simp_all add: ds_def)
    have i0: "0 \<le> i" unfolding i_def using int_of_digits_bounds[OF ds(2)] by simp
    have len: "length (str_nat (nat i)) \<le> length ds"
      unfolding i_def by (rule str_nat_int_of_digits_length[OF ds])
    have nl: "\<not> over_limit m (length ds)" using lim False by (simp add: ds_def)
    have nl': "\<not> over_limit m (length (str_nat (nat i)))"
      using nl over_limit_mono[OF _ len] by blast
    have s: "py_str m i = Inr (str_int i)" using nl' i0 by (simp add: py_str_def)
    let ?suf = "''-v'' @ str_int i"
    have si: "str_int i = str_nat (nat i)" using i0 by (simp add: str_int_def)
    have 1: "is_version_suffix ?suf" using version_suffix_canonical(1)[OF i0] .
    have 2: "minimal_name nm ?suf"
      using str_nat_digits[of "nat i"] by (intro minimal_name_version) (simp add: si)
    have 3: "int_of_digits (drop 2 ?suf) = i" using version_suffix_canonical(2)[OF i0] by simp
    have 4: "\<not> over_limit m (length (drop 2 ?suf))" using nl' by (simp add: si)
    have "parse_env_id m ((case ns of None \<Rightarrow> [] | Some n \<Rightarrow> n @ ''/'') @ nm @ ?suf)
        = (if ?suf = [] then Inr (ns, nm, None)
           else if over_limit m (length (drop 2 ?suf)) then Inl ValueError
           else Inr (ns, nm, Some (int_of_digits (drop 2 ?suf))))"
      using 1 by (intro parse_of_shape[OF sh(1,2) _ 2 sh(6)]) simp
    then have "parse_env_id m ((case ns of None \<Rightarrow> [] | Some n \<Rightarrow> n @ ''/'') @ nm @ ?suf)
        = Inr (ns, nm, Some i)"
      using 3 4 by simp
    then show ?thesis using v s by (simp add: env_id_def)
  qed
qed

text \<open>A version of more digits than the limit: \<^verbatim>\<open>int\<close> raises \<^verbatim>\<open>ValueError\<close>.\<close>

lemma parse_long_version:
  assumes "nm \<noteq> []" "list_all name_char nm" "ds \<noteq> []" "list_all is_digit ds"
    and "over_limit m (length ds)"
  shows "parse_env_id m (nm @ ''-v'' @ ds) = Inl ValueError"
proof -
  have 1: "''-v'' @ ds = [] \<or> is_version_suffix (''-v'' @ ds)" using assms(3,4) by simp
  have 2: "minimal_name nm (''-v'' @ ds)" by (rule minimal_name_version[OF assms(4)])
  have "parse_env_id m ((case None of None \<Rightarrow> [] | Some n \<Rightarrow> n @ ''/'') @ nm @ (''-v'' @ ds))
      = (if ''-v'' @ ds = [] then Inr (None, nm, None)
         else if over_limit m (length (drop 2 (''-v'' @ ds))) then Inl ValueError
         else Inr (None, nm, Some (int_of_digits (drop 2 (''-v'' @ ds)))))"
    by (rule parse_of_shape[OF assms(1,2) 1 2]) simp
  then show ?thesis using assms(5) by simp
qed

lemma is_digit_one: "is_digit (CHR ''1'')"
  by (simp add: is_digit_def)

lemma name_char_A: "name_char (CHR ''A'')"
  by (simp add: name_char_def is_word_def)

text \<open>
  C6, as stated: on every string the parser returns a triple or raises the
  malformed-identifier error. It does not where the interpreter limits the
  conversion of \<^verbatim>\<open>int\<close>: with the limit 4300, the default, an identifier whose
  version has 4301 digits matches the pattern, and \<^verbatim>\<open>int(version)\<close> raises
  \<^verbatim>\<open>ValueError\<close>.
\<close>

theorem parse_long_version_counterexample:
  "parse_env_id 4300 (''A-v'' @ replicate 4301 (CHR ''1'')) = Inl ValueError"
proof -
  have "parse_env_id 4300 (''A'' @ ''-v'' @ replicate 4301 (CHR ''1'')) = Inl ValueError"
    by (rule parse_long_version)
       (simp_all add: name_char_A is_digit_one list_all_length over_limit_def)
  then show ?thesis by simp
qed

text \<open>
  C6, as amended. For every limit \<open>m\<close> of the interpreter and every string of
  code points below 256: when the string parses to a triple, the \<^verbatim>\<open>id\<close> of a
  record with that triple is computed without error, is the canonical string
  \<^verbatim>\<open>[namespace/]name[-vVERSION]\<close> of the triple, and parses to the same triple, so
  that building the canonical string once more gives the same string; an
  \<^verbatim>\<open>EnvSpec\<close> made from the \<^verbatim>\<open>id\<close> of an \<^verbatim>\<open>EnvSpec\<close>, with the same arguments, is that
  \<^verbatim>\<open>EnvSpec\<close>. On every string the parser returns a triple, or raises the
  malformed-identifier error for that string, which it does exactly when the
  string does not match the pattern, or raises \<^verbatim>\<open>ValueError\<close>, which it does
  exactly when the string matches with a version of more digits than the limit
  allows; a version of up to 640 digits, or any version where there is no limit,
  never raises it.
\<close>

theorem parse_canonical_idempotent:
  "(parse_env_id m s = Inr (ns, nm, v) \<longrightarrow>
      (\<exists>c. env_id m (args\<lparr>namespace := ns, name := nm, version := v\<rparr>) = Inr c
          \<and> c = (case ns of None \<Rightarrow> [] | Some n \<Rightarrow> n @ ''/'') @ nm
                  @ (case v of None \<Rightarrow> [] | Some i \<Rightarrow> ''-v'' @ str_int i)
          \<and> parse_env_id m c = Inr (ns, nm, v)))
   \<and> (EnvSpec_init m s args = Inr spec \<longrightarrow>
        (\<exists>c. env_id m spec = Inr c \<and> EnvSpec_init m c args = Inr spec))
   \<and> ((\<exists>p. parse_env_id m s = Inr p) \<or> parse_env_id m s = Inl (MalformedId s)
        \<or> parse_env_id m s = Inl ValueError)
   \<and> (parse_env_id m s = Inl (MalformedId s)) = (fullmatch pattern s = None)
   \<and> (parse_env_id m s = Inl ValueError)
       = (\<exists>G ds. fullmatch pattern s = Some G \<and> G ''version'' = Some ds
                  \<and> 640 < length ds \<and> 0 < m \<and> m < length ds)"
proof (intro conjI impI)
  assume p: "parse_env_id m s = Inr (ns, nm, v)"
  show "\<exists>c. env_id m (args\<lparr>namespace := ns, name := nm, version := v\<rparr>) = Inr c
          \<and> c = (case ns of None \<Rightarrow> [] | Some n \<Rightarrow> n @ ''/'') @ nm
                  @ (case v of None \<Rightarrow> [] | Some i \<Rightarrow> ''-v'' @ str_int i)
          \<and> parse_env_id m c = Inr (ns, nm, v)"
    by (rule parse_canonical[OF p])
next
  assume i: "EnvSpec_init m s args = Inr spec"
  then obtain ns' nm' v' where p: "parse_env_id m s = Inr (ns', nm', v')"
    and sp: "spec = args\<lparr>namespace := ns', name := nm', version := v'\<rparr>"
    by (auto simp: EnvSpec_init_def split: sum.splits)
  obtain c where c: "env_id m (args\<lparr>namespace := ns', name := nm', version := v'\<rparr>) = Inr c"
    "parse_env_id m c = Inr (ns', nm', v')"
    using parse_canonical[OF p, of args] by blast
  have "env_id m spec = Inr c \<and> EnvSpec_init m c args = Inr spec"
    using c sp by (simp add: EnvSpec_init_def)
  then show "\<exists>c. env_id m spec = Inr c \<and> EnvSpec_init m c args = Inr spec" ..
next
  show "(\<exists>p. parse_env_id m s = Inr p) \<or> parse_env_id m s = Inl (MalformedId s)
        \<or> parse_env_id m s = Inl ValueError"
    using parse_error[of m s] by (cases "parse_env_id m s") auto
next
  show "(parse_env_id m s = Inl (MalformedId s)) = (fullmatch pattern s = None)"
    by (simp add: parse_malformed_iff)
next
  show "(parse_env_id m s = Inl ValueError)
       = (\<exists>G ds. fullmatch pattern s = Some G \<and> G ''version'' = Some ds
                  \<and> 640 < length ds \<and> 0 < m \<and> m < length ds)"
    by (simp add: parse_ValueError_iff over_limit_def)
qed

theorem parse_canonical_idempotent_witness:
  "parse_env_id 4300 ''ALE/Breakout-v05'' = Inr (Some ''ALE'', ''Breakout'', Some 5)
   \<and> env_id 4300 (plain_args\<lparr>namespace := Some ''ALE'', name := ''Breakout'', version := Some 5\<rparr>)
       = Inr ''ALE/Breakout-v5''
   \<and> parse_env_id 4300 ''ALE/Breakout-v5'' = Inr (Some ''ALE'', ''Breakout'', Some 5)
   \<and> EnvSpec_init 4300 ''ALE/Breakout-v05'' plain_args
       = Inr (plain_args\<lparr>namespace := Some ''ALE'', name := ''Breakout'', version := Some 5\<rparr>)
   \<and> EnvSpec_init 4300 ''ALE/Breakout-v5'' plain_args
       = Inr (plain_args\<lparr>namespace := Some ''ALE'', name := ''Breakout'', version := Some 5\<rparr>)"
proof -
  have p: "parse_env_id 4300 ''ALE/Breakout-v05'' = Inr (Some ''ALE'', ''Breakout'', Some 5)"
    by (simp add: parse_eval)
  have i: "EnvSpec_init 4300 ''ALE/Breakout-v05'' plain_args
       = Inr (plain_args\<lparr>namespace := Some ''ALE'', name := ''Breakout'', version := Some 5\<rparr>)"
    by (simp add: EnvSpec_init_def p)
  have e: "env_id 4300 (plain_args\<lparr>namespace := Some ''ALE'', name := ''Breakout'', version := Some 5\<rparr>)
       = Inr ''ALE/Breakout-v5''"
    by (simp add: str_eval)
  note t = parse_canonical_idempotent[of 4300 "''ALE/Breakout-v05''" "Some ''ALE''" "''Breakout''"
      "Some 5" plain_args
      "plain_args\<lparr>namespace := Some ''ALE'', name := ''Breakout'', version := Some 5\<rparr>"]
  obtain c where c: "env_id 4300
        (plain_args\<lparr>namespace := Some ''ALE'', name := ''Breakout'', version := Some 5\<rparr>) = Inr c"
      "parse_env_id 4300 c = Inr (Some ''ALE'', ''Breakout'', Some 5)"
    using conjunct1[OF t] p by blast
  have c5: "c = ''ALE/Breakout-v5''" using c(1) e by simp
  obtain c' where c': "env_id 4300
        (plain_args\<lparr>namespace := Some ''ALE'', name := ''Breakout'', version := Some 5\<rparr>) = Inr c'"
      "EnvSpec_init 4300 c' plain_args
         = Inr (plain_args\<lparr>namespace := Some ''ALE'', name := ''Breakout'', version := Some 5\<rparr>)"
    using conjunct1[OF conjunct2[OF t]] i by blast
  have c5': "c' = ''ALE/Breakout-v5''" using c'(1) e by simp
  show ?thesis
    using c(2) c'(2) unfolding c5 c5'
    by (intro conjI) (rule p, rule e, assumption, rule i, assumption)
qed

section \<open>Registering\<close>

lemma tree_ns_name_setitem:
  assumes "setitem m t key r = Inr t1" "parse_env_id m key = Inr (ns, nm, v)"
  shows "map_of (tree_ns_name t1 ns nm) v = Some r"
    and "ns' \<noteq> ns \<Longrightarrow> tree_ns t1 ns' = tree_ns t ns'"
    and "has_key ns (tree t1)" and "has_key nm (tree_ns t1 ns)"
  using assms
  by (auto simp: setitem_def tree_ns_def tree_ns_name_def update_conv' Let_def)

lemma register_no_override:
  assumes "x_ns r = None" "parse_env_id m ident = Inr (ns0, nm, v)"
  shows "\<exists>t' c. register m ident args r = (Inr (), r\<lparr>env_specs := t'\<rparr>)
           \<and> env_id m (args\<lparr>namespace := ns0, name := nm, version := v\<rparr>) = Inr c
           \<and> setitem m (env_specs r) c (args\<lparr>namespace := ns0, name := nm, version := v\<rparr>) = Inr t'
           \<and> parse_env_id m c = Inr (ns0, nm, v)"
proof -
  let ?spec = "args\<lparr>namespace := ns0, name := nm, version := v\<rparr>"
  obtain c where c: "env_id m ?spec = Inr c" and p: "parse_env_id m c = Inr (ns0, nm, v)"
    using parse_canonical[OF assms(2), of args] by blast
  obtain t' where t': "setitem m (env_specs r) c ?spec = Inr t'"
    using p by (simp add: setitem_def Let_def)
  have "\<exists>b. contains m (env_specs r) c = Inr b"
    using p by (auto simp: contains_def)
  then obtain b where b: "contains m (env_specs r) c = Inr b" ..
  have "register m ident args r = (Inr (), r\<lparr>env_specs := t'\<rparr>)"
    using assms t' b c by (simp add: register_def EnvSpec_init_def Let_def)
  then show ?thesis using t' p c by (intro exI[of _ t'] exI[of _ c]) simp
qed

lemma tree_ns_name_setitem_eq:
  assumes "setitem m t key r = Inr t1" "parse_env_id m key = Inr (ns, nm, v)"
  shows "tree_ns_name t1 ns nm = AList.update v r (tree_ns_name t ns nm)"
  using assms
  by (auto simp: setitem_def tree_ns_def tree_ns_name_def update_conv' Let_def)

lemma getitem_two_versions:
  assumes "has_key None (tree t)" "has_key ''A'' (tree_ns t None)"
    and "tree_ns_name t None ''A'' = [(Some 0, s0), (Some 1, s1)]"
    and "version s0 = Some 0" "version s1 = Some 1"
  shows "getitem m t ''A-v0'' = Inr s0"
    and "getitem m t ''A-v2''
     = Inl (VersionNotFound
         ''Environment version `v2` for `A` A could not be found. Valid versions are: [ `v0`, `v1` ].'')"
  using assms(1,2,4,5)
  by (simp_all add: getitem_def assert_version_exists_def assert_name_exists_def
      assert_namespace_exists_def py_max_def parse_A_v0 parse_A_v2 assms(3) str_eval
      version_message_def not_found_def
      has_key_def[of _ "[(Some 0, s0), (Some 1, s1)]"])

lemma getitem_later_version:
  assumes "has_key None (tree t)" "has_key ''A'' (tree_ns t None)"
    and "tree_ns_name t None ''A'' = [(Some 1, s1)]" and "version s1 = Some 1"
  shows "getitem m t ''A-v0''
     = Inl (DeprecatedEnv
         ''Environment version `v0` for `A` is deprecated. Please use the latest version `v1`.'')"
  using assms(1,2,4)
  by (simp add: getitem_def assert_version_exists_def assert_name_exists_def
      assert_namespace_exists_def py_max_def parse_A_v0 assms(3) str_eval
      version_message_def has_key_def[of _ "[(Some 1, s1)]"])

text \<open>\<^verbatim>\<open>DeprecatedEnv\<close> is raised for a version that is not in the tree only.\<close>

lemma getitem_deprecated:
  assumes "getitem m t key = Inl (DeprecatedEnv msg)"
  shows "contains m t key = Inr False"
proof -
  obtain ns nm v where p: "parse_env_id m key = Inr (ns, nm, v)"
    using assms parse_error[of m key]
    by (cases "parse_env_id m key") (auto simp: getitem_def)
  have "\<not> has_key v (tree_ns_name t ns nm)"
  proof
    assume h: "has_key v (tree_ns_name t ns nm)"
    then have "assert_version_exists m t ns nm v \<noteq> Inl (DeprecatedEnv msg)"
      by (simp add: assert_version_exists_def assert_name_exists_def
          assert_namespace_exists_def split: sum.splits)
    moreover have "map_of (tree_ns_name t ns nm) v \<noteq> None"
      using h by (simp add: has_key_def map_of_eq_None_iff)
    ultimately show False using assms p
      by (auto simp: getitem_def split: sum.splits option.splits)
  qed
  then show ?thesis using p by (simp add: contains_def)
qed

text \<open>
  C4, as stated: after \<^verbatim>\<open>A-v0\<close> and \<^verbatim>\<open>A-v1\<close> have been registered the request for
  \<^verbatim>\<open>A-v0\<close> raises \<^verbatim>\<open>DeprecatedEnv\<close>. In a new registry it does not: the request
  finds version 0 in the tree and returns its record.
\<close>

theorem registered_old_version_counterexample:
  "getitem 4300 (env_specs (snd (register 4300 ''A-v1'' plain_args
              (snd (register 4300 ''A-v0'' plain_args EnvRegistry_init))))) ''A-v0''
     = Inr (plain_args\<lparr>namespace := None, name := ''A'', version := Some 0\<rparr>)"
  by (simp add: tree_eval str_eval parse_A_v0 parse_A_v1)

text \<open>
  C4, as amended. In a registry without an active override and without the name
  \<^verbatim>\<open>A\<close> at the root, and for every limit of the interpreter and all keyword
  arguments: after \<^verbatim>\<open>A-v0\<close> and then \<^verbatim>\<open>A-v1\<close> have been registered, the request for
  \<^verbatim>\<open>A-v0\<close> returns the record registered under that id, and the request for
  \<^verbatim>\<open>A-v2\<close> raises \<^verbatim>\<open>VersionNotFound\<close> with a message that lists \<^verbatim>\<open>v0\<close> and \<^verbatim>\<open>v1\<close>;
  after \<^verbatim>\<open>A-v1\<close> alone has been registered, the request for \<^verbatim>\<open>A-v0\<close> raises
  \<^verbatim>\<open>DeprecatedEnv\<close> with a message that names \<^verbatim>\<open>v1\<close>. And in every tree, a request
  that raises \<^verbatim>\<open>DeprecatedEnv\<close> is for an id that the tree does not contain.
\<close>

theorem registered_versions_lookup:
  assumes "x_ns reg = None" "\<not> has_key ''A'' (tree_ns (env_specs reg) None)"
  shows "getitem m (env_specs (snd (register m ''A-v1'' a1 (snd (register m ''A-v0'' a0 reg)))))
             ''A-v0''
           = Inr (a0\<lparr>namespace := None, name := ''A'', version := Some 0\<rparr>)
       \<and> getitem m (env_specs (snd (register m ''A-v1'' a1 (snd (register m ''A-v0'' a0 reg)))))
             ''A-v2''
           = Inl (VersionNotFound
         ''Environment version `v2` for `A` A could not be found. Valid versions are: [ `v0`, `v1` ].'')
       \<and> getitem m (env_specs (snd (register m ''A-v1'' a1 reg))) ''A-v0''
           = Inl (DeprecatedEnv
         ''Environment version `v0` for `A` is deprecated. Please use the latest version `v1`.'')
       \<and> (getitem m t key = Inl (DeprecatedEnv msg) \<longrightarrow> contains m t key = Inr False)"
proof -
  let ?s0 = "a0\<lparr>namespace := None, name := ''A'', version := Some 0\<rparr>"
  let ?s1 = "a1\<lparr>namespace := None, name := ''A'', version := Some 1\<rparr>"
  have e0: "env_id m ?s0 = Inr ''A-v0''" and e1: "env_id m ?s1 = Inr ''A-v1''"
    by (simp_all add: str_eval)
  have e: "tree_ns_name (env_specs reg) None ''A'' = []"
    using assms(2) by (simp add: tree_ns_name_def has_key_def)
  obtain t1 where r1: "register m ''A-v0'' a0 reg = (Inr (), reg\<lparr>env_specs := t1\<rparr>)"
    and s1: "setitem m (env_specs reg) ''A-v0'' ?s0 = Inr t1"
    using register_no_override[OF assms(1) parse_A_v0, of m a0] e0 by auto
  obtain t2 where r2: "register m ''A-v1'' a1 (reg\<lparr>env_specs := t1\<rparr>)
        = (Inr (), reg\<lparr>env_specs := t2\<rparr>)"
    and s2: "setitem m t1 ''A-v1'' ?s1 = Inr t2"
    using register_no_override[of "reg\<lparr>env_specs := t1\<rparr>" m "''A-v1''" None "''A''" "Some 1" a1]
      assms(1) parse_A_v1[of m] e1 by auto
  obtain t3 where r3: "register m ''A-v1'' a1 reg = (Inr (), reg\<lparr>env_specs := t3\<rparr>)"
    and s3: "setitem m (env_specs reg) ''A-v1'' ?s1 = Inr t3"
    using register_no_override[OF assms(1) parse_A_v1, of m a1] e1 by auto
  have v1: "tree_ns_name t1 None ''A'' = [(Some 0, ?s0)]"
    using tree_ns_name_setitem_eq[OF s1 parse_A_v0] e by simp
  have v2: "tree_ns_name t2 None ''A'' = [(Some 0, ?s0), (Some 1, ?s1)]"
    using tree_ns_name_setitem_eq[OF s2 parse_A_v1] v1 by simp
  have v3: "tree_ns_name t3 None ''A'' = [(Some 1, ?s1)]"
    using tree_ns_name_setitem_eq[OF s3 parse_A_v1] e by simp
  have k: "has_key None (tree t2)" "has_key ''A'' (tree_ns t2 None)"
    using tree_ns_name_setitem(3,4)[OF s2 parse_A_v1] .
  have k3: "has_key None (tree t3)" "has_key ''A'' (tree_ns t3 None)"
    using tree_ns_name_setitem(3,4)[OF s3 parse_A_v1] .
  have t: "env_specs (snd (register m ''A-v1'' a1 (snd (register m ''A-v0'' a0 reg)))) = t2"
    using r1 r2 by simp
  have t': "env_specs (snd (register m ''A-v1'' a1 reg)) = t3"
    using r3 by simp
  have 1: "getitem m t2 ''A-v0'' = Inr ?s0"
    by (rule getitem_two_versions(1)[OF k v2]) simp_all
  have 2: "getitem m t2 ''A-v2''
     = Inl (VersionNotFound
         ''Environment version `v2` for `A` A could not be found. Valid versions are: [ `v0`, `v1` ].'')"
    by (rule getitem_two_versions(2)[OF k v2]) simp_all
  have 3: "getitem m t3 ''A-v0''
     = Inl (DeprecatedEnv
         ''Environment version `v0` for `A` is deprecated. Please use the latest version `v1`.'')"
    by (rule getitem_later_version[OF k3 v3]) simp
  have 4: "getitem m t key = Inl (DeprecatedEnv msg) \<longrightarrow> contains m t key = Inr False"
    using getitem_deprecated[of m t key msg] by (rule impI)
  show ?thesis
    unfolding t t' by (intro conjI) (rule 1, rule 2, rule 3, rule 4)
qed

theorem registered_versions_lookup_witness:
  "x_ns (EnvRegistry_init :: (string entry, (string \<times> int) list) EnvRegistry) = None
   \<and> \<not> has_key ''A'' (tree_ns (env_specs
           (EnvRegistry_init :: (string entry, (string \<times> int) list) EnvRegistry)) None)
   \<and> getitem 4300 (env_specs (snd (register 4300 ''A-v1'' plain_args
                (snd (register 4300 ''A-v0'' plain_args EnvRegistry_init))))) ''A-v0''
       = Inr (plain_args\<lparr>namespace := None, name := ''A'', version := Some 0\<rparr>)
   \<and> getitem 4300 (env_specs (snd (register 4300 ''A-v1'' plain_args
                (snd (register 4300 ''A-v0'' plain_args EnvRegistry_init))))) ''A-v2''
       = Inl (VersionNotFound
         ''Environment version `v2` for `A` A could not be found. Valid versions are: [ `v0`, `v1` ].'')
   \<and> getitem 4300 (env_specs (snd (register 4300 ''A-v1'' plain_args EnvRegistry_init))) ''A-v0''
       = Inl (DeprecatedEnv
         ''Environment version `v0` for `A` is deprecated. Please use the latest version `v1`.'')
   \<and> contains 4300 (env_specs (snd (register 4300 ''A-v1'' plain_args EnvRegistry_init))) ''A-v0''
       = Inr False"
proof -
  have a: "x_ns (EnvRegistry_init :: (string entry, (string \<times> int) list) EnvRegistry) = None"
    by (simp add: EnvRegistry_init_def)
  have b: "\<not> has_key ''A'' (tree_ns (env_specs
           (EnvRegistry_init :: (string entry, (string \<times> int) list) EnvRegistry)) None)"
    by (simp add: EnvRegistry_init_def EnvSpecTree_init_def tree_ns_def)
  note t = registered_versions_lookup[OF a b, of 4300 plain_args plain_args
      "env_specs (snd (register 4300 ''A-v1'' plain_args EnvRegistry_init))" "''A-v0''"
      "''Environment version `v0` for `A` is deprecated. Please use the latest version `v1`.''"]
  have 1: "getitem 4300 (env_specs (snd (register 4300 ''A-v1'' plain_args
                (snd (register 4300 ''A-v0'' plain_args EnvRegistry_init))))) ''A-v0''
       = Inr (plain_args\<lparr>namespace := None, name := ''A'', version := Some 0\<rparr>)"
    using t by (elim conjE)
  have 2: "getitem 4300 (env_specs (snd (register 4300 ''A-v1'' plain_args
                (snd (register 4300 ''A-v0'' plain_args EnvRegistry_init))))) ''A-v2''
       = Inl (VersionNotFound
         ''Environment version `v2` for `A` A could not be found. Valid versions are: [ `v0`, `v1` ].'')"
    using t by (elim conjE)
  have 3: "getitem 4300 (env_specs (snd (register 4300 ''A-v1'' plain_args EnvRegistry_init))) ''A-v0''
       = Inl (DeprecatedEnv
         ''Environment version `v0` for `A` is deprecated. Please use the latest version `v1`.'')"
    using t by (elim conjE)
  have 4: "contains 4300 (env_specs (snd (register 4300 ''A-v1'' plain_args EnvRegistry_init))) ''A-v0''
       = Inr False"
    using t 3 by (elim conjE) (erule mp)
  show ?thesis
    by (intro conjI) (rule a, rule b, rule 1, rule 2, rule 3, rule 4)
qed

section \<open>Nested namespace scopes\<close>



section \<open>Instantiating a spec\<close>

lemma dict_update_lookup:
  "distinct (map fst kw) \<Longrightarrow>
   map_of (dict_update d kw) k = (case map_of kw k of Some x \<Rightarrow> Some x | None \<Rightarrow> map_of d k)"
proof (induction kw arbitrary: d)
  case Nil
  show ?case by (simp add: dict_update_def)
next
  case (Cons p ps)
  obtain k0 v0 where p: "p = (k0, v0)" by (cases p)
  have d: "distinct (map fst ps)" and n: "k0 \<notin> fst ` set ps" using Cons.prems p by auto
  have "map_of (dict_update (AList.update k0 v0 d) ps) k
      = (case map_of ps k of Some x \<Rightarrow> Some x | None \<Rightarrow> map_of (AList.update k0 v0 d) k)"
    using Cons.IH[OF d] .
  moreover have "dict_update d (p # ps) = dict_update (AList.update k0 v0 d) ps"
    by (simp add: dict_update_def p)
  moreover have "map_of ps k0 = None" using n by (simp add: map_of_eq_None_iff)
  ultimately show ?case by (simp add: p update_conv' split: option.splits)
qed

lemma make_raises:
  assumes "spec_objs h self = Some sp" "entry_point sp = Some ep" "dict_objs h (kwargs sp) = Some d"
    and "(case ep of
            Callable f \<Rightarrow> call f (dict_update d kw)
          | ModulePath p \<Rightarrow>
              (case load_ep p of Inl e \<Rightarrow> Inl e | Inr cls \<Rightarrow> call cls (dict_update d kw))) = Inl e"
  shows "make m call load_ep self kw h
           = Some (Inl e, h\<lparr>dict_objs := (dict_objs h)(next_ref h \<mapsto> dict_update d kw),
                            next_ref := Suc (next_ref h)\<rparr>)"
  using assms by (simp add: make_def new_dict_def Let_def)

lemma make_returns:
  assumes "spec_objs h self = Some sp" "entry_point sp = Some ep" "dict_objs h (kwargs sp) = Some d"
    and "(case ep of
            Callable f \<Rightarrow> call f (dict_update d kw)
          | ModulePath p \<Rightarrow>
              (case load_ep p of Inl e \<Rightarrow> Inl e | Inr cls \<Rightarrow> call cls (dict_update d kw))) = Inr obj"
  shows "\<exists>env. make m call load_ep self kw h
           = Some (Inr env,
                   \<lparr>spec_objs = (spec_objs h)(Suc (Suc (next_ref h)) \<mapsto> sp\<lparr>kwargs := next_ref h\<rparr>),
                    dict_objs = (dict_objs h)(next_ref h \<mapsto> dict_update d kw, Suc (next_ref h) \<mapsto> d),
                    next_ref = Suc (Suc (Suc (next_ref h)))\<rparr>)
           \<and> unwrapped env = Unwrapped obj (Suc (Suc (next_ref h)))"
  using assms
  by (cases h) (auto simp: make_def new_dict_def new_spec_def deepcopy_spec_def Let_def
      split: option.splits)

text \<open>
  C8. For a spec object with an entry point, in a store whose references are
  below the next free one, and keyword arguments with distinct keys: \<^verbatim>\<open>make\<close>
  calls the construction target with the stored \<^verbatim>\<open>kwargs\<close> updated by the
  arguments of the call, in which a key of the call has the value of the call
  and any other key its stored value. Every object that was in the store is
  as it was, the registered spec and its dictionary among them. When the
  target returns, the environment carries a new spec object, equal to the
  registered one but for its \<^verbatim>\<open>kwargs\<close>, which is a new dictionary with the merged
  entries; when the target raises, \<^verbatim>\<open>make\<close> raises the same.
\<close>

theorem make_merges_and_keeps_template:
  assumes "spec_objs h self = Some sp" "entry_point sp = Some ep"
    and "dict_objs h (kwargs sp) = Some d"
    and "self < next_ref h" "kwargs sp < next_ref h" and "distinct (map fst kw)"
  shows "(\<exists>r h'. make m call load_ep self kw h = Some (r, h')
           \<and> (\<forall>a. a < next_ref h \<longrightarrow>
                  spec_objs h' a = spec_objs h a \<and> dict_objs h' a = dict_objs h a)
           \<and> spec_objs h' self = Some sp \<and> dict_objs h' (kwargs sp) = Some d
           \<and> (case (case ep of
                       Callable f \<Rightarrow> call f (dict_update d kw)
                     | ModulePath p \<Rightarrow>
                         (case load_ep p of
                            Inl e \<Rightarrow> Inl e
                          | Inr cls \<Rightarrow> call cls (dict_update d kw))) of
                 Inl e \<Rightarrow> r = Inl e
               | Inr obj \<Rightarrow>
                   (\<exists>env spec_ref kw_ref.
                      r = Inr env \<and> unwrapped env = Unwrapped obj spec_ref
                      \<and> spec_ref \<noteq> self \<and> kw_ref \<noteq> kwargs sp
                      \<and> spec_objs h' spec_ref = Some (sp\<lparr>kwargs := kw_ref\<rparr>)
                      \<and> dict_objs h' kw_ref = Some (dict_update d kw))))
       \<and> (\<forall>k. map_of (dict_update d kw) k
                 = (case map_of kw k of Some x \<Rightarrow> Some x | None \<Rightarrow> map_of d k))"
proof (rule conjI)
  let ?built = "case ep of
                  Callable f \<Rightarrow> call f (dict_update d kw)
                | ModulePath p \<Rightarrow>
                    (case load_ep p of Inl e \<Rightarrow> Inl e | Inr cls \<Rightarrow> call cls (dict_update d kw))"
  show "\<exists>r h'. make m call load_ep self kw h = Some (r, h')
           \<and> (\<forall>a. a < next_ref h \<longrightarrow>
                  spec_objs h' a = spec_objs h a \<and> dict_objs h' a = dict_objs h a)
           \<and> spec_objs h' self = Some sp \<and> dict_objs h' (kwargs sp) = Some d
           \<and> (case ?built of
                 Inl e \<Rightarrow> r = Inl e
               | Inr obj \<Rightarrow>
                   (\<exists>env spec_ref kw_ref.
                      r = Inr env \<and> unwrapped env = Unwrapped obj spec_ref
                      \<and> spec_ref \<noteq> self \<and> kw_ref \<noteq> kwargs sp
                      \<and> spec_objs h' spec_ref = Some (sp\<lparr>kwargs := kw_ref\<rparr>)
                      \<and> dict_objs h' kw_ref = Some (dict_update d kw)))"
  proof (cases ?built)
    case (Inl e)
    let ?h' = "h\<lparr>dict_objs := (dict_objs h)(next_ref h \<mapsto> dict_update d kw),
                 next_ref := Suc (next_ref h)\<rparr>"
    have mk: "make m call load_ep self kw h = Some (Inl e, ?h')"
      using make_raises[where call = call and load_ep = load_ep and kw = kw, OF assms(1-3) Inl] .
    have "(\<forall>a. a < next_ref h \<longrightarrow>
                  spec_objs ?h' a = spec_objs h a \<and> dict_objs ?h' a = dict_objs h a)
           \<and> spec_objs ?h' self = Some sp \<and> dict_objs ?h' (kwargs sp) = Some d"
      using assms(1,3,4,5) by simp
    then show ?thesis using mk Inl by (intro exI[of _ "Inl e"] exI[of _ ?h']) simp
  next
    case (Inr obj)
    let ?h' = "\<lparr>spec_objs = (spec_objs h)(Suc (Suc (next_ref h)) \<mapsto> sp\<lparr>kwargs := next_ref h\<rparr>),
                dict_objs = (dict_objs h)(next_ref h \<mapsto> dict_update d kw, Suc (next_ref h) \<mapsto> d),
                next_ref = Suc (Suc (Suc (next_ref h)))\<rparr>"
    obtain env where mk: "make m call load_ep self kw h = Some (Inr env, ?h')"
      and u: "unwrapped env = Unwrapped obj (Suc (Suc (next_ref h)))"
      using make_returns[where call = call and load_ep = load_ep and kw = kw, OF assms(1-3) Inr]
      by blast
    have f: "(\<forall>a. a < next_ref h \<longrightarrow>
                  spec_objs ?h' a = spec_objs h a \<and> dict_objs ?h' a = dict_objs h a)
           \<and> spec_objs ?h' self = Some sp \<and> dict_objs ?h' (kwargs sp) = Some d"
      using assms(1,3,4,5) by simp
    have n: "\<exists>env' spec_ref kw_ref.
                      Inr env = Inr env' \<and> unwrapped env' = Unwrapped obj spec_ref
                      \<and> spec_ref \<noteq> self \<and> kw_ref \<noteq> kwargs sp
                      \<and> spec_objs ?h' spec_ref = Some (sp\<lparr>kwargs := kw_ref\<rparr>)
                      \<and> dict_objs ?h' kw_ref = Some (dict_update d kw)"
      using u assms(4,5)
      by (intro exI[of _ env] exI[of _ "Suc (Suc (next_ref h))"] exI[of _ "next_ref h"]) simp
    show ?thesis using mk f n Inr
      by (intro exI[of _ "Inr env"] exI[of _ ?h']) simp
  qed
next
  show "\<forall>k. map_of (dict_update d kw) k
                 = (case map_of kw k of Some x \<Rightarrow> Some x | None \<Rightarrow> map_of d k)"
    using dict_update_lookup[OF assms(6)] by blast
qed

theorem make_merges_and_keeps_template_witness:
  "spec_objs small_store 0 = Some stored_spec
   \<and> entry_point stored_spec = Some (Callable ''Env'')
   \<and> dict_objs small_store (kwargs stored_spec) = Some [(''x'', 1), (''y'', 2)]
   \<and> 0 < next_ref small_store \<and> kwargs stored_spec < next_ref small_store
   \<and> distinct (map fst [(''y'', 5 :: int), (''z'', 7)])
   \<and> map_option (\<lambda>(r, h'). (r, spec_objs h' 0, dict_objs h' 1, spec_objs h' 4, dict_objs h' 2))
        (make 4300 echo_call no_load 0 [(''y'', 5), (''z'', 7)] small_store)
     = Some (Inr (OrderEnforcing (Unwrapped (''Env'', [(''x'', 1), (''y'', 5), (''z'', 7)]) 4)),
             Some stored_spec, Some [(''x'', 1), (''y'', 2)],
             Some (stored_spec\<lparr>kwargs := 2\<rparr>), Some [(''x'', 1), (''y'', 5), (''z'', 7)])"
proof -
  have a: "spec_objs small_store 0 = Some stored_spec"
    by (simp add: small_store_def)
  have b: "entry_point stored_spec = Some (Callable ''Env'')"
    by (simp add: stored_spec_def)
  have c: "dict_objs small_store (kwargs stored_spec) = Some [(''x'', 1), (''y'', 2)]"
    by (simp add: small_store_def stored_spec_def)
  have d: "0 < next_ref small_store" "kwargs stored_spec < next_ref small_store"
    by (simp_all add: small_store_def stored_spec_def)
  have e: "distinct (map fst [(''y'', 5 :: int), (''z'', 7)])"
    by simp
  have mk: "map_option (\<lambda>(r, h'). (r, spec_objs h' 0, dict_objs h' 1, spec_objs h' 4, dict_objs h' 2))
        (make 4300 echo_call no_load 0 [(''y'', 5), (''z'', 7)] small_store)
     = Some (Inr (OrderEnforcing (Unwrapped (''Env'', [(''x'', 1), (''y'', 5), (''z'', 7)]) 4)),
             Some stored_spec, Some [(''x'', 1), (''y'', 2)],
             Some (stored_spec\<lparr>kwargs := 2\<rparr>), Some [(''x'', 1), (''y'', 5), (''z'', 7)])"
    by (simp add: make_def small_store_def stored_spec_def echo_call_def new_dict_def new_spec_def
        deepcopy_spec_def dict_update_def Let_def eval_nat_numeral)
  show ?thesis
    using make_merges_and_keeps_template[where call = echo_call and load_ep = no_load,
        OF a b c d e]
    by (intro conjI) (rule a, rule b, rule c, rule d(1), rule d(2), rule e, rule mk)
qed

end
